theory Spec2Isabelle
  imports Main "HOL-Library.Word"
begin

unbundle bit_operations_syntax

section \<open>Retry executor (src/utils/index.ts)\<close>

text \<open>
  \<^verbatim>\<open>retryWithBackoff<T>(fn: () => Promise<T>, maxRetries: number = 3): Promise<T>\<close>

  The wrapped operation \<open>fn\<close> takes no argument and is effectful: it is modelled as a
  function on an explicit world state \<open>'s\<close> that returns its outcome (\<open>Inl\<close> the
  rejection reason, \<open>Inr\<close> the resolved value) and the next world. What the executor
  itself does to the outside is recorded as a list of events, in the order they happen:
  \<^item> \<open>Invoked\<close> for every call of \<open>fn\<close>;
  \<^item> \<open>Warned n text s\<close> for the line
    \<^verbatim>\<open>console.warn(`Attempt ${attempt + 1} failed: ${error}. Retrying in ${waitTime / 1000}s...`)\<close>,
    with the attempt number, the text the reason converts to and the seconds announced;
  \<^item> \<open>Waited ms\<close> for every \<^verbatim>\<open>await new Promise(r => setTimeout(r, waitTime))\<close>, with
    the delay requested in milliseconds.

  The template literal of the warning converts the caught value to a string. Not every
  JavaScript value has such a conversion: for a Symbol, or an object without
  \<^verbatim>\<open>toString\<close>, the conversion throws a \<^verbatim>\<open>TypeError\<close>. \<open>text_of\<close> is that conversion,
  \<open>None\<close> where it throws. A throw at this place is inside the \<^verbatim>\<open>catch\<close> block of the
  \<^verbatim>\<open>async\<close> executor, after an \<^verbatim>\<open>await\<close>: the executor ends there, neither \<^verbatim>\<open>resolve\<close> nor
  \<^verbatim>\<open>reject\<close> is ever called, and the promise returned to the caller stays \<open>Pending\<close>.

  \<open>maxRetries\<close> is an integer here (the callers pass retry counts); the loop counter
  \<open>attempt\<close> starts at 0. \<open>lastError\<close> is \<^verbatim>\<open>Error | null\<close>, an option; the promise
  rejects with it.
\<close>

datatype event = Invoked | Warned nat string nat | Waited nat

datatype ('e, 'a) promise = Resolved 'a | Rejected "'e option" | Pending

type_synonym ('s, 'e, 'a) operation = "'s \<Rightarrow> ('e + 'a) \<times> 's"

type_synonym ('s, 'e, 'a) settled = "('e, 'a) promise \<times> event list \<times> 's"

function retry_loop ::
  "('e \<Rightarrow> string option) \<Rightarrow> ('s, 'e, 'a) operation \<Rightarrow> int \<Rightarrow> int \<Rightarrow> 'e option \<Rightarrow>
   event list \<Rightarrow> 's \<Rightarrow> ('s, 'e, 'a) settled"
where
  "retry_loop text_of fn maxRetries attempt lastError evs w =
     (if attempt < maxRetries then
        (case fn w of
           (Inr result, w') \<Rightarrow> (Resolved result, evs @ [Invoked], w')
         | (Inl error, w') \<Rightarrow>
             (if attempt = maxRetries - 1 then (Rejected (Some error), evs @ [Invoked], w')
              else
                (case text_of error of
                   None \<Rightarrow> (Pending, evs @ [Invoked], w')
                 | Some text \<Rightarrow>
                     retry_loop text_of fn maxRetries (attempt + 1) (Some error)
                       (evs @ [Invoked, Warned (nat attempt + 1) text (2 ^ nat attempt),
                               Waited (2 ^ nat attempt * 1000)]) w')))
      else (Rejected lastError, evs, w))"
  by pat_completeness auto
termination
  by (relation "measure (\<lambda>(text_of, fn, maxRetries, attempt, lastError, evs, w).
        nat (maxRetries - attempt))") auto

definition retryWithBackoff ::
  "('e \<Rightarrow> string option) \<Rightarrow> ('s, 'e, 'a) operation \<Rightarrow> int \<Rightarrow> 's \<Rightarrow> ('s, 'e, 'a) settled" where
  "retryWithBackoff text_of fn maxRetries w = retry_loop text_of fn maxRetries 0 None [] w"

text \<open>The number of times the operation was called, and the total delay requested.\<close>

definition invocations :: "event list \<Rightarrow> nat" where
  "invocations evs = length (filter (\<lambda>e. e = Invoked) evs)"

fun total_wait :: "event list \<Rightarrow> nat" where
  "total_wait [] = 0"
| "total_wait (Waited ms # evs) = ms + total_wait evs"
| "total_wait (e # evs) = total_wait evs"

text \<open>An operation that rejects whatever the world is: it fails on every attempt.\<close>

definition always_fails :: "('s, 'e, 'a) operation \<Rightarrow> bool" where
  "always_fails fn = (\<forall>w. isl (fst (fn w)))"

text \<open>
  Operations used to run the executor on concrete inputs. A rejection reason is either
  an \<^verbatim>\<open>Error\<close>, which converts to a string, or a Symbol, which does not; the number tells
  the reasons of successive calls apart. The world is the number of calls made so far.
  \<open>failing_op\<close> rejects the n-th call (counted from 0) with the error \<open>n\<close>; \<open>flaky_op k\<close>
  rejects the first \<open>k\<close> calls and resolves every later one with \<open>''success''\<close>;
  \<open>symbol_op\<close> and \<open>symbol_flaky_op k\<close> do the same with Symbols as reasons.
\<close>

datatype reason = AnError nat | ASymbol nat

fun reason_text :: "reason \<Rightarrow> string option" where
  "reason_text (AnError n) = Some ''Error: failure''"
| "reason_text (ASymbol n) = None"

definition failing_op :: "(nat, reason, string) operation" where
  "failing_op n = (Inl (AnError n), Suc n)"

definition flaky_op :: "nat \<Rightarrow> (nat, reason, string) operation" where
  "flaky_op k n = (if n < k then (Inl (AnError n), Suc n) else (Inr ''success'', Suc n))"

definition symbol_op :: "(nat, reason, string) operation" where
  "symbol_op n = (Inl (ASymbol n), Suc n)"

definition symbol_flaky_op :: "nat \<Rightarrow> (nat, reason, string) operation" where
  "symbol_flaky_op k n = (if n < k then (Inl (ASymbol n), Suc n) else (Inr ''success'', Suc n))"

declare retry_loop.simps [simp del]


section \<open>Bytes, padding and chaining\<close>

text \<open>
  A \<^verbatim>\<open>Buffer\<close> is a list of bytes. The cipher the source asks Node's \<^verbatim>\<open>crypto\<close> module
  for is \<^verbatim>\<open>'aes-256-cbc'\<close> with the default automatic padding. Node's module is not part of
  this repository: its cipher objects are modelled here from what the spec says of them
  (``a 256-bit block cipher in CBC mode with PKCS#7-style padding'', 32-byte key, 16-byte
  IV), with the padding and the chaining written out. The block cipher itself, AES-256 on
  one 16-byte block, is a parameter \<open>bc\<close>; \<open>block_cipher_ok\<close> states the one property of it
  that the proofs use: under a 32-byte key a 16-byte block is enciphered to a 16-byte
  block, and deciphering gives the block back.
\<close>

type_synonym byte = "8 word"
type_synonym bytes = "byte list"

record block_cipher =
  encrypt_block :: "bytes \<Rightarrow> bytes \<Rightarrow> bytes"
  decrypt_block :: "bytes \<Rightarrow> bytes \<Rightarrow> bytes"

definition block_cipher_ok :: "block_cipher \<Rightarrow> bool" where
  "block_cipher_ok bc =
     (\<forall>k b. length k = 32 \<and> length b = 16 \<longrightarrow>
        length (encrypt_block bc k b) = 16 \<and> decrypt_block bc k (encrypt_block bc k b) = b)"

definition xor_bytes :: "bytes \<Rightarrow> bytes \<Rightarrow> bytes" where
  "xor_bytes a b = map (\<lambda>(x, y). x XOR y) (zip a b)"

text \<open>
  Modelled from the spec: the PKCS#7 padding that the cipher's \<^verbatim>\<open>final()\<close> adds, up to the
  next multiple of 16 bytes and never empty: \<open>n\<close> bytes of value \<open>n\<close>.
\<close>

definition pkcs7_pad :: "bytes \<Rightarrow> bytes" where
  "pkcs7_pad xs = (let n = 16 - length xs mod 16 in xs @ replicate n (of_nat n))"

text \<open>
  Modelled from the spec: the removal of the padding in the decipher's \<^verbatim>\<open>final()\<close>. It
  looks at the last byte \<open>n\<close>: it must be between 1 and 16 and the last \<open>n\<close> bytes must
  all equal it; otherwise the padding is invalid (\<open>None\<close>).
\<close>

definition pkcs7_unpad :: "bytes \<Rightarrow> bytes option" where
  "pkcs7_unpad xs =
     (if xs = [] then None
      else let n = unat (last xs) in
        if n = 0 \<or> 16 < n \<or> length xs < n then None
        else if drop (length xs - n) xs = replicate n (last xs)
        then Some (take (length xs - n) xs) else None)"

text \<open>
  Modelled from the spec: CBC mode. The data is cut into 16-byte blocks; each plaintext
  block is XORed with the previous ciphertext block (the IV for the first) before it is
  enciphered, and the other way round when deciphering.
\<close>

function chunks16 :: "bytes \<Rightarrow> bytes list" where
  "chunks16 xs = (if xs = [] then [] else take 16 xs # chunks16 (drop 16 xs))"
  by pat_completeness auto
termination
  by (relation "measure length") auto

declare chunks16.simps [simp del]

fun cbc_encrypt :: "block_cipher \<Rightarrow> bytes \<Rightarrow> bytes \<Rightarrow> bytes list \<Rightarrow> bytes list" where
  "cbc_encrypt bc k prev [] = []"
| "cbc_encrypt bc k prev (p # ps) =
     (let c = encrypt_block bc k (xor_bytes p prev) in c # cbc_encrypt bc k c ps)"

fun cbc_decrypt :: "block_cipher \<Rightarrow> bytes \<Rightarrow> bytes \<Rightarrow> bytes list \<Rightarrow> bytes list" where
  "cbc_decrypt bc k prev [] = []"
| "cbc_decrypt bc k prev (c # cs) =
     xor_bytes (decrypt_block bc k c) prev # cbc_decrypt bc k c cs"

text \<open>
  The errors Node's cipher objects throw: the IV is not 16 bytes or the key is not 32
  bytes (at creation), the data to decipher is empty or not a whole number of blocks, or
  the padding of the deciphered last block is not valid (both at \<^verbatim>\<open>final()\<close>).
\<close>

datatype crypto_error =
  InvalidArgType | InvalidIV | InvalidKeyLength | WrongFinalBlockLength | BadDecrypt

text \<open>
  Modelled from the spec: \<^verbatim>\<open>c = crypto.createCipheriv('aes-256-cbc', key, iv)\<close> followed
  by \<^verbatim>\<open>Buffer.concat([c.update(data), c.final()])\<close>.
\<close>

definition cipher_aes_256_cbc :: "block_cipher \<Rightarrow> bytes \<Rightarrow> bytes \<Rightarrow> bytes \<Rightarrow> crypto_error + bytes" where
  "cipher_aes_256_cbc bc key iv data =
     (if length iv \<noteq> 16 then Inl InvalidIV
      else if length key \<noteq> 32 then Inl InvalidKeyLength
      else Inr (concat (cbc_encrypt bc key iv (chunks16 (pkcs7_pad data)))))"

text \<open>
  Modelled from the spec: \<^verbatim>\<open>d = crypto.createDecipheriv('aes-256-cbc', key, iv)\<close>
  followed by \<^verbatim>\<open>Buffer.concat([d.update(data), d.final()])\<close>.
\<close>

definition decipher_aes_256_cbc :: "block_cipher \<Rightarrow> bytes \<Rightarrow> bytes \<Rightarrow> bytes \<Rightarrow> crypto_error + bytes" where
  "decipher_aes_256_cbc bc key iv data =
     (if length iv \<noteq> 16 then Inl InvalidIV
      else if length key \<noteq> 32 then Inl InvalidKeyLength
      else if data = [] \<or> length data mod 16 \<noteq> 0 then Inl WrongFinalBlockLength
      else (case pkcs7_unpad (concat (cbc_decrypt bc key iv (chunks16 data))) of
              None \<Rightarrow> Inl BadDecrypt
            | Some plain \<Rightarrow> Inr plain))"

text \<open>
  A stand-in block cipher for running the definitions on concrete inputs: it adds the
  first 16 key bytes to the block, byte by byte, and subtracts them again.
\<close>

definition add_cipher :: block_cipher where
  "add_cipher =
     \<lparr> encrypt_block = (\<lambda>k b. map (\<lambda>(x, y). x + y) (zip b (take 16 k))),
       decrypt_block = (\<lambda>k b. map (\<lambda>(x, y). x - y) (zip b (take 16 k))) \<rparr>"


section \<open>Content cipher (src/ipfs/index.ts, class IPFSClient)\<close>

text \<open>
  Of the client's fields the cipher uses \<^verbatim>\<open>encryptByDefault\<close>, \<^verbatim>\<open>encryptionKey\<close> and
  \<^verbatim>\<open>encryptionAvailable\<close>; the gateway and API URLs and the HTTP core are left out. What the
  constructor reads from outside is the environment: the configured default, the key
  \<^verbatim>\<open>getEncryptionKey()\<close> returns, and whether \<^verbatim>\<open>crypto.getCiphers()\<close> works (it throws where
  the runtime has no crypto support).
\<close>

record IPFSClient =
  encryptByDefault :: bool
  encryptionKey :: "bytes option"
  encryptionAvailable :: bool

record environment =
  config_encrypt_by_default :: bool
  config_encryption_key :: "bytes option"
  crypto_supported :: bool

text \<open>
  \<^verbatim>\<open>this.encryptionKey = encryptionKey || getEncryptionKey()\<close>: a Buffer is an object and so
  truthy whatever its length; only \<^verbatim>\<open>null\<close> falls through to the configuration.
\<close>

definition new_IPFSClient :: "environment \<Rightarrow> bool option \<Rightarrow> bytes option \<Rightarrow> IPFSClient" where
  "new_IPFSClient env encryptByDefault_arg encryptionKey_arg =
     (let byDefault = (case encryptByDefault_arg of Some b \<Rightarrow> b
                       | None \<Rightarrow> config_encrypt_by_default env);
          key = (case encryptionKey_arg of Some k \<Rightarrow> Some k
                 | None \<Rightarrow> config_encryption_key env)
      in if crypto_supported env
         then \<lparr> encryptByDefault = byDefault, encryptionKey = key,
                encryptionAvailable = (case key of None \<Rightarrow> False | Some k \<Rightarrow> length k = 32) \<rparr>
         else \<lparr> encryptByDefault = False, encryptionKey = None, encryptionAvailable = False \<rparr>)"

text \<open>
  The errors of \<^verbatim>\<open>encryptData\<close> and \<^verbatim>\<open>decryptData\<close>. \<open>EncryptionNotAvailable\<close> is the
  \<^verbatim>\<open>Error('Encryption is not available. ...')\<close> of both. \<open>DecryptionFailed e\<close> is
  \<^verbatim>\<open>Error(`Decryption failed: ${error}. Incorrect key or corrupted data?`)\<close>: the message
  has the text of the caught library error \<open>e\<close> in it. \<open>Uncaught e\<close> is a library error
  that \<^verbatim>\<open>encryptData\<close>, which has no \<^verbatim>\<open>try\<close>, lets through. The
  \<^verbatim>\<open>TypeError('Data must be a Buffer')\<close> cannot arise: the data is a byte list.
\<close>

datatype ipfs_error = EncryptionNotAvailable | DecryptionFailed crypto_error | Uncaught crypto_error

text \<open>
  \<^verbatim>\<open>encryptData(data)\<close>. The 16 bytes that \<^verbatim>\<open>crypto.randomBytes(16)\<close> returns are the
  argument \<open>iv\<close>.
\<close>

definition encryptData :: "block_cipher \<Rightarrow> IPFSClient \<Rightarrow> bytes \<Rightarrow> bytes \<Rightarrow> ipfs_error + bytes" where
  "encryptData bc c iv data =
     (if \<not> encryptionAvailable c then Inl EncryptionNotAvailable
      else (case encryptionKey c of
              None \<Rightarrow> Inl (Uncaught InvalidArgType)
            | Some key \<Rightarrow>
                (case cipher_aes_256_cbc bc key iv data of
                   Inl e \<Rightarrow> Inl (Uncaught e)
                 | Inr encryptedData \<Rightarrow> Inr (iv @ encryptedData))))"

definition decryptData :: "block_cipher \<Rightarrow> IPFSClient \<Rightarrow> bytes \<Rightarrow> ipfs_error + bytes" where
  "decryptData bc c encryptedData =
     (if \<not> encryptionAvailable c then Inl EncryptionNotAvailable
      else (let iv = take 16 encryptedData; data = drop 16 encryptedData in
            case encryptionKey c of
              None \<Rightarrow> Inl (DecryptionFailed InvalidArgType)
            | Some key \<Rightarrow>
                (case decipher_aes_256_cbc bc key iv data of
                   Inl e \<Rightarrow> Inl (DecryptionFailed e)
                 | Inr plain \<Rightarrow> Inr plain)))"

text \<open>A client for running the definitions: crypto support present, a 32-byte key.\<close>

definition demo_env :: environment where
  "demo_env = \<lparr> config_encrypt_by_default = False, config_encryption_key = None,
                crypto_supported = True \<rparr>"

definition demo_key :: bytes where
  "demo_key = map of_nat [1 ..< 33]"


section \<open>Strings and their encodings\<close>

text \<open>
  A JavaScript string is a sequence of 16-bit code units (UTF-16), and nothing forces
  the surrogate code units \<open>0xD800..0xDFFF\<close> to come in pairs. \<open>js\<close> writes an ASCII
  literal as such a string.
\<close>

type_synonym jsstring = "16 word list"

definition js :: "string \<Rightarrow> jsstring" where
  "js s = map (\<lambda>c. of_nat (of_char c)) s"

definition is_high_surrogate :: "nat \<Rightarrow> bool" where
  "is_high_surrogate u = (0xD800 \<le> u \<and> u \<le> 0xDBFF)"

definition is_low_surrogate :: "nat \<Rightarrow> bool" where
  "is_low_surrogate u = (0xDC00 \<le> u \<and> u \<le> 0xDFFF)"

definition is_surrogate :: "nat \<Rightarrow> bool" where
  "is_surrogate u = (0xD800 \<le> u \<and> u \<le> 0xDFFF)"

text \<open>
  The code points of a string, as the UTF-8 encoder reads them: a high surrogate followed
  by a low one is one code point beyond \<open>0xFFFF\<close>; a surrogate that is not part of such
  a pair is replaced by \<open>U+FFFD\<close>.
\<close>

fun code_points :: "nat list \<Rightarrow> nat list" where
  "code_points [] = []"
| "code_points [u] = [if is_surrogate u then 0xFFFD else u]"
| "code_points (u # v # us) =
     (if is_high_surrogate u \<and> is_low_surrogate v
      then (0x10000 + (u - 0xD800) * 0x400 + (v - 0xDC00)) # code_points us
      else (if is_surrogate u then 0xFFFD else u) # code_points (v # us))"

text \<open>A string is well formed when every surrogate in it is part of a pair.\<close>

fun well_formed :: "nat list \<Rightarrow> bool" where
  "well_formed [] = True"
| "well_formed [u] = (\<not> is_surrogate u)"
| "well_formed (u # v # us) =
     (if is_high_surrogate u \<and> is_low_surrogate v then well_formed us
      else \<not> is_surrogate u \<and> well_formed (v # us))"

text \<open>
  The code points that have an encoding (the Unicode scalar values), and the lists of
  byte values.
\<close>

definition scalar_value :: "nat \<Rightarrow> bool" where
  "scalar_value c = (c < 0x110000 \<and> \<not> is_surrogate c)"

definition octets :: "nat list \<Rightarrow> bool" where
  "octets xs = (\<forall>x \<in> set xs. x < 256)"

definition utf8_encode_cp :: "nat \<Rightarrow> nat list" where
  "utf8_encode_cp c =
     (if c < 0x80 then [c]
      else if c < 0x800 then [0xC0 + c div 64, 0x80 + c mod 64]
      else if c < 0x10000 then [0xE0 + c div 4096, 0x80 + c div 64 mod 64, 0x80 + c mod 64]
      else [0xF0 + c div 262144, 0x80 + c div 4096 mod 64, 0x80 + c div 64 mod 64,
            0x80 + c mod 64])"

text \<open>
  Modelled from the spec: \<^verbatim>\<open>Buffer.from(s, 'utf-8')\<close> of Node, the UTF-8 bytes of a
  string.
\<close>

definition Buffer_from_utf8 :: "jsstring \<Rightarrow> bytes" where
  "Buffer_from_utf8 s = map of_nat (concat (map utf8_encode_cp (code_points (map unat s))))"

text \<open>
  The UTF-8 decoder is the state machine of the Encoding standard, on byte values: \<open>need\<close>
  continuation bytes are still expected for the code point \<open>cp\<close> under construction, and
  the next one must lie between \<open>lo\<close> and \<open>hi\<close>. A byte that cannot continue the sequence
  ends it with \<open>U+FFFD\<close> and is read again as the start of a new one; so is the end of
  the input inside a sequence.
\<close>

fun utf8_decode_from :: "nat \<Rightarrow> nat \<Rightarrow> nat \<Rightarrow> nat \<Rightarrow> nat list \<Rightarrow> nat list" where
  "utf8_decode_from need cp lo hi [] = (if need = 0 then [] else [0xFFFD])"
| "utf8_decode_from need cp lo hi (b # bs) =
     (if need = 0 then
        (if b < 0x80 then b # utf8_decode_from 0 0 0x80 0xBF bs
         else if 0xC2 \<le> b \<and> b \<le> 0xDF then utf8_decode_from 1 (b - 0xC0) 0x80 0xBF bs
         else if 0xE0 \<le> b \<and> b \<le> 0xEF then
           utf8_decode_from 2 (b - 0xE0) (if b = 0xE0 then 0xA0 else 0x80)
             (if b = 0xED then 0x9F else 0xBF) bs
         else if 0xF0 \<le> b \<and> b \<le> 0xF4 then
           utf8_decode_from 3 (b - 0xF0) (if b = 0xF0 then 0x90 else 0x80)
             (if b = 0xF4 then 0x8F else 0xBF) bs
         else 0xFFFD # utf8_decode_from 0 0 0x80 0xBF bs)
      else if b < lo \<or> hi < b then 0xFFFD # utf8_decode_from 0 0 0x80 0xBF (b # bs)
      else if need = 1 then (cp * 64 + (b - 0x80)) # utf8_decode_from 0 0 0x80 0xBF bs
      else utf8_decode_from (need - 1) (cp * 64 + (b - 0x80)) 0x80 0xBF bs)"

abbreviation utf8_decode :: "nat list \<Rightarrow> nat list" where
  "utf8_decode \<equiv> utf8_decode_from 0 0 0x80 0xBF"

definition utf16_encode_cp :: "nat \<Rightarrow> nat list" where
  "utf16_encode_cp c =
     (if c < 0x10000 then [c]
      else [0xD800 + (c - 0x10000) div 0x400, 0xDC00 + (c - 0x10000) mod 0x400])"

text \<open>
  Modelled from the spec: \<^verbatim>\<open>buf.toString('utf-8')\<close> of Node, the string a buffer
  decodes to; it never throws.
\<close>

definition toString_utf8 :: "bytes \<Rightarrow> jsstring" where
  "toString_utf8 bs =
     map of_nat (concat (map utf16_encode_cp (utf8_decode (map unat bs))))"

subsection \<open>Base64\<close>

definition base64_char :: "nat \<Rightarrow> nat" where
  "base64_char n =
     (if n < 26 then 65 + n else if n < 52 then 71 + n else if n < 62 then n - 4
      else if n = 62 then 43 else 47)"

fun base64_groups :: "nat list \<Rightarrow> nat list" where
  "base64_groups (a # b # c # rest) =
     [base64_char (a div 4), base64_char (a mod 4 * 16 + b div 16),
      base64_char (b mod 16 * 4 + c div 64), base64_char (c mod 64)] @ base64_groups rest"
| "base64_groups [a, b] =
     [base64_char (a div 4), base64_char (a mod 4 * 16 + b div 16),
      base64_char (b mod 16 * 4), 61]"
| "base64_groups [a] = [base64_char (a div 4), base64_char (a mod 4 * 16), 61, 61]"
| "base64_groups [] = []"

text \<open>The digits of the encoding alone, before the alphabet and the padding.\<close>

fun base64_digits :: "nat list \<Rightarrow> nat list" where
  "base64_digits (a # b # c # rest) =
     [a div 4, a mod 4 * 16 + b div 16, b mod 16 * 4 + c div 64, c mod 64] @ base64_digits rest"
| "base64_digits [a, b] = [a div 4, a mod 4 * 16 + b div 16, b mod 16 * 4]"
| "base64_digits [a] = [a div 4, a mod 4 * 16]"
| "base64_digits [] = []"

text \<open>
  Modelled from the spec: \<^verbatim>\<open>buf.toString('base64')\<close> of Node, the standard alphabet with
  \<^verbatim>\<open>=\<close> padding (code unit 61).
\<close>

definition toString_base64 :: "bytes \<Rightarrow> jsstring" where
  "toString_base64 bs = map of_nat (base64_groups (map unat bs))"

text \<open>
  The value of a code unit as a base64 digit; Node's decoder takes the URL-safe
  \<^verbatim>\<open>-\<close> and \<^verbatim>\<open>_\<close> too.
\<close>

definition base64_value :: "nat \<Rightarrow> nat option" where
  "base64_value c =
     (if 65 \<le> c \<and> c \<le> 90 then Some (c - 65)
      else if 97 \<le> c \<and> c \<le> 122 then Some (c - 71)
      else if 48 \<le> c \<and> c \<le> 57 then Some (c + 4)
      else if c = 43 \<or> c = 45 then Some 62
      else if c = 47 \<or> c = 95 then Some 63
      else None)"

fun base64_bytes :: "nat list \<Rightarrow> nat list" where
  "base64_bytes (a # b # c # d # rest) =
     [a * 4 + b div 16, b mod 16 * 16 + c div 4, c mod 4 * 64 + d] @ base64_bytes rest"
| "base64_bytes [a, b, c] = [a * 4 + b div 16, b mod 16 * 16 + c div 4]"
| "base64_bytes [a, b] = [a * 4 + b div 16]"
| "base64_bytes [a] = []"
| "base64_bytes [] = []"

text \<open>
  Modelled from the spec: \<^verbatim>\<open>Buffer.from(s, 'base64')\<close> of Node. The decoder is lenient
  and never throws: it stops at the first \<^verbatim>\<open>=\<close>, skips every code unit that is not a
  base64 digit, and drops a last digit that is alone in its group.
\<close>

definition Buffer_from_base64 :: "jsstring \<Rightarrow> bytes" where
  "Buffer_from_base64 s =
     map of_nat (base64_bytes
       (concat (map (\<lambda>c. case base64_value c of None \<Rightarrow> [] | Some v \<Rightarrow> [v])
          (takeWhile (\<lambda>c. c \<noteq> 61) (map unat s)))))"


section \<open>Credential cipher (src/config/index.ts)\<close>

text \<open>
  The configuration file is the state: \<^verbatim>\<open>loadConfig()\<close> reads it and \<^verbatim>\<open>saveConfig()\<close>
  writes it, and neither fails. Of its content the two functions use the \<^verbatim>\<open>accounts\<close>
  dictionary of the \<^verbatim>\<open>substrate\<close> section, from account names to records whose fields
  \<^verbatim>\<open>seed_phrase\<close> and \<^verbatim>\<open>seed_phrase_encoded\<close> may be absent, and the active account that
  \<^verbatim>\<open>getActiveAccount()\<close> returns (\<open>None\<close> for \<^verbatim>\<open>null\<close>). The file has its \<^verbatim>\<open>substrate\<close>
  section, as the default configuration and every file the module writes have;
  \<open>accounts_missing\<close> says that the section has no \<^verbatim>\<open>accounts\<close> dictionary (the map is
  then empty).
\<close>

record account =
  seed_phrase :: "jsstring option"
  seed_phrase_encoded :: "bool option"

record config =
  active_account :: "jsstring option"
  accounts :: "jsstring \<rightharpoonup> account"
  accounts_missing :: bool

text \<open>
  The dictionary is a plain JavaScript object, and \<^verbatim>\<open>accounts[name]\<close> finds more than what
  the file stores: for a name that is not stored but is a property every object inherits
  from \<^verbatim>\<open>Object.prototype\<close>, it is that built-in object (the prototype itself for
  \<^verbatim>\<open>__proto__\<close>, a function for the others), which is truthy. The built-in objects are
  taken as a process starts with them, with no seed phrase in them; what is assigned onto
  one of them is not written to the file.
\<close>

definition inherited_names :: "jsstring list" where
  "inherited_names =
     map js [''__proto__'', ''constructor'', ''toString'', ''toLocaleString'', ''valueOf'',
             ''hasOwnProperty'', ''isPrototypeOf'', ''propertyIsEnumerable'',
             ''__defineGetter__'', ''__defineSetter__'', ''__lookupGetter__'',
             ''__lookupSetter__'']"

definition inherited_property :: "jsstring \<Rightarrow> bool" where
  "inherited_property name = (name \<in> set inherited_names)"

datatype account_ref = Stored account | BuiltIn | Absent

definition lookup_account :: "config \<Rightarrow> jsstring \<Rightarrow> account_ref" where
  "lookup_account cfg name =
     (case accounts cfg name of
        Some a \<Rightarrow> Stored a
      | None \<Rightarrow> if inherited_property name then BuiltIn else Absent)"

text \<open>
  A value that is a string or \<^verbatim>\<open>null\<close>/\<^verbatim>\<open>undefined\<close> is falsy (\<^verbatim>\<open>!x\<close> holds) when
  it is absent or the empty string. \<open>truthy x\<close> is the string when \<open>x\<close> is not falsy;
  \<^verbatim>\<open>a || b\<close> on such values is \<open>or_else\<close>.
\<close>

definition truthy :: "jsstring option \<Rightarrow> jsstring option" where
  "truthy x = (case x of None \<Rightarrow> None | Some s \<Rightarrow> if s = [] then None else Some s)"

definition or_else :: "jsstring option \<Rightarrow> jsstring option \<Rightarrow> jsstring option" where
  "or_else a b = (case truthy a of None \<Rightarrow> b | Some s \<Rightarrow> Some s)"

text \<open>
  The errors the two functions throw, in the order of the source: no account name, the
  account is not in the configuration, the account has no seed phrase, no password for
  encrypting, no password for decrypting, and the one error of the \<^verbatim>\<open>catch\<close> around the
  decryption (\<^verbatim>\<open>'Failed to decrypt seed phrase: Invalid password or corrupted data'\<close>).
  \<open>CipherError e\<close> is a library error that \<^verbatim>\<open>setSeedPhrase\<close>, which has no \<^verbatim>\<open>try\<close>,
  would let through.
\<close>

datatype seed_error =
  NoAccountSpecified
| AccountNotFound jsstring
| NoSeedPhrase jsstring
| PasswordRequiredToEncrypt
| PasswordRequiredToDecrypt
| FailedToDecrypt
| CipherError crypto_error

text \<open>
  The key derivation \<^verbatim>\<open>crypto.pbkdf2Sync(password, salt, 100000, 32, 'sha256')\<close> is a
  parameter \<open>kdf\<close>, a function of the password and the salt; \<open>kdf_ok\<close> says that it
  returns the 32 bytes it is asked for.
\<close>

type_synonym key_derivation = "jsstring \<Rightarrow> bytes \<Rightarrow> bytes"

definition kdf_ok :: "key_derivation \<Rightarrow> bool" where
  "kdf_ok kdf = (\<forall>password salt. length (kdf password salt) = 32)"

text \<open>
  The value that \<^verbatim>\<open>setSeedPhrase\<close> assigns to \<^verbatim>\<open>seed_phrase\<close>, with the flag that goes
  with it, or the error thrown before any assignment.
\<close>

definition seed_phrase_fields ::
  "block_cipher \<Rightarrow> key_derivation \<Rightarrow> jsstring \<Rightarrow> bool \<Rightarrow> jsstring option \<Rightarrow> bytes \<Rightarrow> bytes \<Rightarrow>
   seed_error + jsstring \<times> bool" where
  "seed_phrase_fields bc kdf seedPhrase encode password salt iv =
     (if encode then
        (case truthy password of
           None \<Rightarrow> Inl PasswordRequiredToEncrypt
         | Some pw \<Rightarrow>
             let key = kdf pw salt in
             case cipher_aes_256_cbc bc key iv (Buffer_from_utf8 seedPhrase) of
               Inl e \<Rightarrow> Inl (CipherError e)
             | Inr encrypted \<Rightarrow> Inr (toString_base64 (salt @ iv @ encrypted), True))
      else Inr (seedPhrase, False))"

text \<open>
  \<^verbatim>\<open>setSeedPhrase(seedPhrase, encode, password, accountName)\<close>. The two draws of
  \<^verbatim>\<open>crypto.randomBytes(16)\<close> are the arguments \<open>salt\<close> and \<open>iv\<close>. The result is the
  returned value or the error, and the configuration afterwards (unchanged on an error:
  \<^verbatim>\<open>saveConfig\<close> is not reached). An account that is not stored is created empty first,
  unless \<^verbatim>\<open>accounts[name]\<close> finds a built-in object: then the two fields are assigned
  onto that object and the file that is saved has no account of that name.
\<close>

definition setSeedPhrase ::
  "block_cipher \<Rightarrow> key_derivation \<Rightarrow> config \<Rightarrow> jsstring \<Rightarrow> bool \<Rightarrow> jsstring option \<Rightarrow>
   jsstring option \<Rightarrow> bytes \<Rightarrow> bytes \<Rightarrow> (seed_error + bool) \<times> config" where
  "setSeedPhrase bc kdf cfg seedPhrase encode password accountName salt iv =
     (case truthy (or_else accountName (active_account cfg)) of
        None \<Rightarrow> (Inl NoAccountSpecified, cfg)
      | Some name \<Rightarrow>
          (case seed_phrase_fields bc kdf seedPhrase encode password salt iv of
             Inl e \<Rightarrow> (Inl e, cfg)
           | Inr (phrase, encoded) \<Rightarrow>
               (case lookup_account cfg name of
                  BuiltIn \<Rightarrow> (Inr True, cfg\<lparr> accounts_missing := False \<rparr>)
                | Stored a \<Rightarrow>
                    (Inr True,
                     cfg\<lparr> accounts := (accounts cfg)(name \<mapsto>
                            a\<lparr> seed_phrase := Some phrase, seed_phrase_encoded := Some encoded \<rparr>),
                          accounts_missing := False \<rparr>)
                | Absent \<Rightarrow>
                    (Inr True,
                     cfg\<lparr> accounts := (accounts cfg)(name \<mapsto>
                            \<lparr> seed_phrase = Some phrase, seed_phrase_encoded = Some encoded \<rparr>),
                          accounts_missing := False \<rparr>))))"

text \<open>
  \<^verbatim>\<open>getSeedPhrase(accountName, password)\<close>. Beside the returned string or the error, the
  result lists the key derivations that were run, each with its password and salt. For a
  name that finds a built-in object the account counts as found, and has no seed phrase.
\<close>

definition getSeedPhrase ::
  "block_cipher \<Rightarrow> key_derivation \<Rightarrow> config \<Rightarrow> jsstring option \<Rightarrow> jsstring option \<Rightarrow>
   (seed_error + jsstring) \<times> (jsstring \<times> bytes) list" where
  "getSeedPhrase bc kdf cfg accountName password =
     (case truthy (or_else accountName (active_account cfg)) of
        None \<Rightarrow> (Inl NoAccountSpecified, [])
      | Some name \<Rightarrow>
          (case lookup_account cfg name of
             Absent \<Rightarrow> (Inl (AccountNotFound name), [])
           | BuiltIn \<Rightarrow>
               (if accounts_missing cfg then (Inl (AccountNotFound name), [])
                else (Inl (NoSeedPhrase name), []))
           | Stored acct \<Rightarrow>
               (case truthy (seed_phrase acct) of
                  None \<Rightarrow> (Inl (NoSeedPhrase name), [])
                | Some stored \<Rightarrow>
                    if seed_phrase_encoded acct \<noteq> Some True then (Inr stored, [])
                    else
                      (case truthy password of
                         None \<Rightarrow> (Inl PasswordRequiredToDecrypt, [])
                       | Some pw \<Rightarrow>
                           let encryptedData = Buffer_from_base64 stored;
                               salt = take 16 encryptedData;
                               iv = take 16 (drop 16 encryptedData);
                               encrypted = drop 32 encryptedData;
                               key = kdf pw salt
                           in (case decipher_aes_256_cbc bc key iv encrypted of
                                 Inl e \<Rightarrow> (Inl FailedToDecrypt, [(pw, salt)])
                               | Inr decrypted \<Rightarrow> (Inr (toString_utf8 decrypted), [(pw, salt)]))))))"

text \<open>
  For running the definitions: a key derivation whose key is the password's code units
  (their low bytes, filled up with zeros to 32) with the first salt byte added to each,
  and an empty configuration.
\<close>

definition demo_kdf :: key_derivation where
  "demo_kdf password salt =
     map (\<lambda>b. b + (case salt of [] \<Rightarrow> 0 | s # _ \<Rightarrow> s))
       (take 32 (map (\<lambda>u. of_nat (unat u)) password @ replicate 32 0))"

definition empty_config :: config where
  "empty_config = \<lparr> active_account = None, accounts = Map.empty, accounts_missing = False \<rparr>"


section \<open>Properties of the retry executor\<close>

text \<open>
  C7, as stated, fails for an operation whose rejection reason has no string conversion.
  With \<open>maxRetries = 3\<close> and an operation that rejects every call with a Symbol, the
  operation is invoked once; the warning after the first failure throws while it builds
  its message, and the promise is neither rejected nor resolved: there is no second and
  no third invocation and no rejection with the third error.
\<close>

theorem retry_symbol_reason_never_settles:
  "always_fails symbol_op \<and>
   retryWithBackoff reason_text symbol_op 3 0 = (Pending, [Invoked], 1)"
  by (simp add: always_fails_def symbol_op_def retryWithBackoff_def
      retry_loop.simps [of reason_text symbol_op 3])

text \<open>
  C7, amended. An operation that fails on every attempt, the first two times with a
  rejection reason that converts to a string (as every \<^verbatim>\<open>Error\<close> does), run with
  \<open>maxRetries = 3\<close>, is invoked exactly three times; the promise rejects with the reason
  of the third attempt; the executor warns and waits 1000 ms after the first failure,
  warns and waits 2000 ms after the second, and does neither after the last one (the
  last event is the third invocation).
\<close>

theorem retry_exhaustion:
  assumes "always_fails fn"
    and "\<forall>e. fst (fn w) = Inl e \<or> fst (fn (snd (fn w))) = Inl e \<longrightarrow> text_of e \<noteq> None"
  shows "\<exists>e1 w1 e2 w2 e3 w3 t1 t2.
           fn w = (Inl e1, w1) \<and> fn w1 = (Inl e2, w2) \<and> fn w2 = (Inl e3, w3) \<and>
           text_of e1 = Some t1 \<and> text_of e2 = Some t2 \<and>
           retryWithBackoff text_of fn 3 w =
             (Rejected (Some e3),
              [Invoked, Warned 1 t1 1, Waited 1000, Invoked, Warned 2 t2 2, Waited 2000, Invoked],
              w3) \<and>
           invocations (fst (snd (retryWithBackoff text_of fn 3 w))) = 3 \<and>
           last (fst (snd (retryWithBackoff text_of fn 3 w))) = Invoked"
proof -
  have fails: "\<exists>e w'. fn u = (Inl e, w')" for u
  proof -
    from assms(1) have "isl (fst (fn u))" by (simp add: always_fails_def)
    then obtain e where "fst (fn u) = Inl e" by (auto simp: isl_def)
    then have "fn u = (Inl e, snd (fn u))" by (metis prod.collapse)
    then show ?thesis by blast
  qed
  obtain e1 w1 where s1: "fn w = (Inl e1, w1)" using fails by blast
  obtain e2 w2 where s2: "fn w1 = (Inl e2, w2)" using fails by blast
  obtain e3 w3 where s3: "fn w2 = (Inl e3, w3)" using fails by blast
  from assms(2) s1 s2 have "text_of e1 \<noteq> None" and "text_of e2 \<noteq> None" by simp_all
  then obtain t1 t2 where t: "text_of e1 = Some t1" "text_of e2 = Some t2" by auto
  have run: "retryWithBackoff text_of fn 3 w =
      (Rejected (Some e3),
       [Invoked, Warned 1 t1 1, Waited 1000, Invoked, Warned 2 t2 2, Waited 2000, Invoked], w3)"
    by (simp add: retryWithBackoff_def retry_loop.simps [of text_of fn 3] s1 s2 s3 t)
  show ?thesis using s1 s2 s3 t run by (simp add: invocations_def)
qed

theorem retry_exhaustion_witness:
  "always_fails failing_op \<and>
   reason_text (AnError 0) \<noteq> None \<and> reason_text (AnError 1) \<noteq> None \<and>
   retryWithBackoff reason_text failing_op 3 0 =
     (Rejected (Some (AnError 2)),
      [Invoked, Warned 1 ''Error: failure'' 1, Waited 1000,
       Invoked, Warned 2 ''Error: failure'' 2, Waited 2000, Invoked], 3)"
proof -
  have a: "always_fails failing_op" by (simp add: always_fails_def failing_op_def)
  have b: "\<forall>e. fst (failing_op 0) = Inl e \<or> fst (failing_op (snd (failing_op 0))) = Inl e
              \<longrightarrow> reason_text e \<noteq> None"
    by (auto simp: failing_op_def)
  from retry_exhaustion [OF a b] obtain e1 w1 e2 w2 e3 w3 t1 t2
    where f1: "failing_op 0 = (Inl e1, w1)" and f2: "failing_op w1 = (Inl e2, w2)"
      and f3: "failing_op w2 = (Inl e3, w3)"
      and t: "reason_text e1 = Some t1" "reason_text e2 = Some t2"
      and run: "retryWithBackoff reason_text failing_op 3 0 =
        (Rejected (Some e3),
         [Invoked, Warned 1 t1 1, Waited 1000, Invoked, Warned 2 t2 2, Waited 2000, Invoked], w3)"
    by blast
  from f1 have e1: "e1 = AnError 0" "w1 = 1" by (simp_all add: failing_op_def)
  from f2 e1 have e2: "e2 = AnError 1" "w2 = 2" by (auto simp: failing_op_def)
  from f3 e2 have e3: "e3 = AnError 2" "w3 = 3" by (auto simp: failing_op_def)
  from t e1 e2 have "t1 = ''Error: failure''" "t2 = ''Error: failure''" by simp_all
  with run e3 a show ?thesis by simp
qed

text \<open>
  C8, as stated, fails for an operation whose first rejection reason has no string
  conversion. With \<open>maxRetries = 3\<close> and an operation that rejects its first two calls
  with Symbols and would resolve the third, the operation is invoked once; the warning
  after the first failure throws, nothing is waited for and the promise never resolves.
\<close>

theorem retry_symbol_reason_no_retry:
  "symbol_flaky_op 2 0 = (Inl (ASymbol 0), 1) \<and> symbol_flaky_op 2 1 = (Inl (ASymbol 1), 2) \<and>
   symbol_flaky_op 2 2 = (Inr ''success'', 3) \<and>
   retryWithBackoff reason_text (symbol_flaky_op 2) 3 0 = (Pending, [Invoked], 1)"
  by (simp add: symbol_flaky_op_def retryWithBackoff_def
      retry_loop.simps [of reason_text "symbol_flaky_op 2" 3])

text \<open>
  C8, amended. An operation that fails on its first two invocations, both times with a
  rejection reason that converts to a string (as every \<^verbatim>\<open>Error\<close> does), and succeeds on
  the third, run with \<open>maxRetries = 3\<close>, is invoked exactly three times and the promise
  resolves with the success value; the executor waits \<open>2 ^ 0\<close> seconds before the second
  invocation and \<open>2 ^ 1\<close> seconds before the third, 3 seconds in all (the time unit is
  the second, 1000 ms).
\<close>

theorem retry_schedule:
  assumes "fn w = (Inl e1, w1)" and "fn w1 = (Inl e2, w2)" and "fn w2 = (Inr v, w3)"
    and "text_of e1 = Some t1" and "text_of e2 = Some t2"
  shows "retryWithBackoff text_of fn 3 w =
           (Resolved v,
            [Invoked, Warned 1 t1 (2 ^ 0), Waited (2 ^ 0 * 1000),
             Invoked, Warned 2 t2 (2 ^ 1), Waited (2 ^ 1 * 1000), Invoked], w3) \<and>
         invocations (fst (snd (retryWithBackoff text_of fn 3 w))) = 3 \<and>
         total_wait (fst (snd (retryWithBackoff text_of fn 3 w))) = (1 + 2) * 1000"
proof -
  have run: "retryWithBackoff text_of fn 3 w =
      (Resolved v,
       [Invoked, Warned 1 t1 1, Waited 1000, Invoked, Warned 2 t2 2, Waited 2000, Invoked], w3)"
    by (simp add: retryWithBackoff_def retry_loop.simps [of text_of fn 3] assms)
  then show ?thesis by (simp add: invocations_def)
qed

theorem retry_schedule_witness:
  "flaky_op 2 0 = (Inl (AnError 0), 1) \<and> flaky_op 2 1 = (Inl (AnError 1), 2) \<and>
   flaky_op 2 2 = (Inr ''success'', 3) \<and>
   reason_text (AnError 0) = Some ''Error: failure'' \<and>
   reason_text (AnError 1) = Some ''Error: failure'' \<and>
   retryWithBackoff reason_text (flaky_op 2) 3 0 =
     (Resolved ''success'',
      [Invoked, Warned 1 ''Error: failure'' 1, Waited 1000,
       Invoked, Warned 2 ''Error: failure'' 2, Waited 2000, Invoked], 3) \<and>
   total_wait (fst (snd (retryWithBackoff reason_text (flaky_op 2) 3 0))) = 3000"
proof -
  have a: "flaky_op 2 0 = (Inl (AnError 0), 1)" and b: "flaky_op 2 1 = (Inl (AnError 1), 2)"
    and c: "flaky_op 2 2 = (Inr ''success'', 3)"
    by (simp_all add: flaky_op_def)
  have d: "reason_text (AnError 0) = Some ''Error: failure''"
    and e: "reason_text (AnError 1) = Some ''Error: failure''" by simp_all
  from retry_schedule [OF a b c d e] a b c show ?thesis by simp
qed

text \<open>
  C10. With a non-positive \<open>maxRetries\<close> the loop body is never entered: the operation
  is not invoked, nothing is logged or waited for, the world is untouched, and the
  promise rejects with \<open>lastError\<close> still \<^verbatim>\<open>null\<close>.
\<close>

theorem retry_nonpositive:
  assumes "maxRetries \<le> 0"
  shows "retryWithBackoff text_of fn maxRetries w = (Rejected None, [], w)"
  using assms
  by (simp add: retryWithBackoff_def retry_loop.simps [of text_of fn maxRetries 0])

theorem retry_nonpositive_witness:
  "(-2::int) \<le> 0 \<and> retryWithBackoff reason_text failing_op (-2) 0 = (Rejected None, [], 0) \<and>
   retryWithBackoff reason_text (flaky_op 0) 0 0 = (Rejected None, [], 0)"
  using retry_nonpositive [of "-2" reason_text failing_op 0]
    retry_nonpositive [of 0 reason_text "flaky_op 0" 0]
  by simp


section \<open>Lemmas on padding, chunking and chaining\<close>

lemma xor_bytes_length: "length (xor_bytes a b) = min (length a) (length b)"
  by (simp add: xor_bytes_def)

lemma xor_bytes_cancel: "length a = length b \<Longrightarrow> xor_bytes (xor_bytes a b) b = a"
proof (induction a arbitrary: b)
  case Nil
  then show ?case by (simp add: xor_bytes_def)
next
  case (Cons x a)
  then obtain y b' where b: "b = y # b'" by (cases b) auto
  with Cons.prems have "length a = length b'" by simp
  from Cons.IH [OF this] have "xor_bytes (xor_bytes a b') b' = a" .
  moreover have "(x XOR y) XOR y = x" by (simp add: xor.assoc)
  ultimately show ?case using b by (simp add: xor_bytes_def)
qed

lemma chunks16_Nil: "chunks16 [] = []"
  by (simp add: chunks16.simps)

lemma chunks16_concat: "concat (chunks16 xs) = xs"
proof (induction xs rule: chunks16.induct)
  case (1 xs)
  show ?case
  proof (cases "xs = []")
    case True
    then show ?thesis by (simp add: chunks16_Nil)
  next
    case False
    with 1 have "concat (chunks16 (drop 16 xs)) = drop 16 xs" by simp
    with False show ?thesis by (subst chunks16.simps) simp
  qed
qed

lemma chunks16_blocks:
  "length xs mod 16 = 0 \<Longrightarrow> b \<in> set (chunks16 xs) \<Longrightarrow> length b = 16"
proof (induction xs rule: chunks16.induct)
  case (1 xs)
  show ?case
  proof (cases "xs = []")
    case True
    with 1 show ?thesis by (simp add: chunks16_Nil)
  next
    case False
    from "1.prems"(1) False have len: "16 \<le> length xs"
      by (metis length_0_conv mod_less not_le_imp_less)
    have rest: "length (drop 16 xs) mod 16 = 0"
      using "1.prems"(1) len by (simp add: mod_eq_0_iff_dvd dvd_diff_nat) 
    from "1.prems"(2) False have "b = take 16 xs \<or> b \<in> set (chunks16 (drop 16 xs))"
      by (subst (asm) chunks16.simps) simp
    then show ?thesis
    proof
      assume "b = take 16 xs"
      with len show ?thesis by simp
    next
      assume "b \<in> set (chunks16 (drop 16 xs))"
      with "1.IH" [OF False rest] show ?thesis .
    qed
  qed
qed

lemma chunks16_of_blocks:
  "\<forall>b \<in> set bs. length b = 16 \<Longrightarrow> chunks16 (concat bs) = bs"
proof (induction bs)
  case Nil
  then show ?case by (simp add: chunks16_Nil)
next
  case (Cons b bs)
  then have b: "length b = 16" and rest: "chunks16 (concat bs) = bs" by simp_all
  from b have ne: "b @ concat bs \<noteq> []" by auto
  show ?case using b rest ne by (subst chunks16.simps) simp
qed

lemma cbc_encrypt_blocks:
  assumes "block_cipher_ok bc" and "length k = 32"
  shows "length prev = 16 \<Longrightarrow> \<forall>p \<in> set ps. length p = 16 \<Longrightarrow>
         \<forall>c \<in> set (cbc_encrypt bc k prev ps). length c = 16"
proof (induction ps arbitrary: prev)
  case Nil
  then show ?case by simp
next
  case (Cons p ps)
  then have lp: "length (xor_bytes p prev) = 16" by (simp add: xor_bytes_length)
  with assms have lc: "length (encrypt_block bc k (xor_bytes p prev)) = 16"
    by (simp add: block_cipher_ok_def)
  from Cons.IH [OF lc] Cons.prems(2) lc show ?case by (simp add: Let_def)
qed

lemma cbc_length: "length (cbc_encrypt bc k prev ps) = length ps"
  by (induction ps arbitrary: prev) (simp_all add: Let_def)

lemma cbc_roundtrip:
  assumes "block_cipher_ok bc" and "length k = 32"
  shows "length prev = 16 \<Longrightarrow> \<forall>p \<in> set ps. length p = 16 \<Longrightarrow>
         cbc_decrypt bc k prev (cbc_encrypt bc k prev ps) = ps"
proof (induction ps arbitrary: prev)
  case Nil
  then show ?case by simp
next
  case (Cons p ps)
  then have lp: "length p = 16" by simp
  with Cons.prems have lx: "length (xor_bytes p prev) = 16" by (simp add: xor_bytes_length)
  with assms have lc: "length (encrypt_block bc k (xor_bytes p prev)) = 16"
    and dec: "decrypt_block bc k (encrypt_block bc k (xor_bytes p prev)) = xor_bytes p prev"
    by (simp_all add: block_cipher_ok_def)
  have "xor_bytes (xor_bytes p prev) prev = p"
    using lp Cons.prems(1) by (simp add: xor_bytes_cancel)
  with dec Cons.IH [OF lc] Cons.prems(2) show ?case by (simp add: Let_def)
qed

lemma pkcs7_pad_length: "length (pkcs7_pad xs) mod 16 = 0" "pkcs7_pad xs \<noteq> []"
proof -
  have "(length xs + (16 - length xs mod 16)) mod 16 = 0" by presburger
  then show "length (pkcs7_pad xs) mod 16 = 0" by (simp add: pkcs7_pad_def Let_def)
  show "pkcs7_pad xs \<noteq> []" by (simp add: pkcs7_pad_def Let_def)
qed

lemma pkcs7_roundtrip: "pkcs7_unpad (pkcs7_pad xs) = Some xs"
proof -
  define n where "n = 16 - length xs mod 16"
  have n: "0 < n" "n \<le> 16" by (simp_all add: n_def)
  have pad: "pkcs7_pad xs = xs @ replicate n (of_nat n)" by (simp add: pkcs7_pad_def n_def Let_def)
  have lastb: "last (xs @ replicate n (of_nat n :: byte)) = of_nat n" using n by simp
  have un: "unat (of_nat n :: byte) = n" using n by (simp add: unat_of_nat)
  show ?thesis unfolding pad pkcs7_unpad_def lastb un Let_def using n by simp
qed


lemma concat_blocks_length:
  "\<forall>c \<in> set cs. length c = 16 \<Longrightarrow> length (concat cs) = 16 * length (cs :: bytes list)"
  by (induction cs) simp_all

lemma cipher_decipher:
  assumes ok: "block_cipher_ok bc" and k: "length key = 32" and iv: "length iv = 16"
  shows "cipher_aes_256_cbc bc key iv data =
           Inr (concat (cbc_encrypt bc key iv (chunks16 (pkcs7_pad data))))"
    and "decipher_aes_256_cbc bc key iv
           (concat (cbc_encrypt bc key iv (chunks16 (pkcs7_pad data)))) = Inr data"
proof -
  let ?ps = "chunks16 (pkcs7_pad data)"
  let ?cs = "cbc_encrypt bc key iv ?ps"
  show "cipher_aes_256_cbc bc key iv data = Inr (concat ?cs)"
    using k iv by (simp add: cipher_aes_256_cbc_def)
  have ps16: "\<forall>p \<in> set ?ps. length p = 16"
    using chunks16_blocks [OF pkcs7_pad_length(1)] by blast
  have cs16: "\<forall>c \<in> set ?cs. length c = 16"
    using cbc_encrypt_blocks [OF ok k iv ps16] .
  have ps_ne: "?ps \<noteq> []"
    using pkcs7_pad_length(2) [of data] by (subst chunks16.simps) simp
  then have cs_ne: "?cs \<noteq> []" using cbc_length [of bc key iv ?ps] by auto
  then obtain c cs' where cs: "?cs = c # cs'" by (cases ?cs) auto
  with cs16 have "length c = 16" by simp
  with cs have ne: "concat ?cs \<noteq> []" by auto
  have "length (concat ?cs) = 16 * length ?cs"
    using concat_blocks_length [OF cs16] .
  then have m: "length (concat ?cs) mod 16 = 0" by simp
  have ch: "chunks16 (concat ?cs) = ?cs" using chunks16_of_blocks [OF cs16] .
  have dec: "cbc_decrypt bc key iv ?cs = ?ps" using cbc_roundtrip [OF ok k iv ps16] .
  show "decipher_aes_256_cbc bc key iv (concat ?cs) = Inr data"
    using k iv ne m by (simp add: decipher_aes_256_cbc_def ch dec chunks16_concat pkcs7_roundtrip)
qed

lemma new_client_available:
  "crypto_supported env \<Longrightarrow> length K = 32 \<Longrightarrow>
   encryptionAvailable (new_IPFSClient env ebd (Some K)) \<and>
   encryptionKey (new_IPFSClient env ebd (Some K)) = Some K"
  by (simp add: new_IPFSClient_def Let_def)

lemma encrypt_then_decrypt:
  assumes ok: "block_cipher_ok bc" and sup: "crypto_supported env"
    and k: "length K = 32" and iv: "length iv = 16"
  shows "encryptData bc (new_IPFSClient env ebd (Some K)) iv P =
           Inr (iv @ concat (cbc_encrypt bc K iv (chunks16 (pkcs7_pad P))))"
    and "decryptData bc (new_IPFSClient env ebd (Some K))
           (iv @ concat (cbc_encrypt bc K iv (chunks16 (pkcs7_pad P)))) = Inr P"
  using new_client_available [OF sup k, of ebd] cipher_decipher [OF ok k iv, of P] iv
  by (simp_all add: encryptData_def decryptData_def)

lemma add_cipher_ok: "block_cipher_ok add_cipher"
proof -
  have "map (\<lambda>(x, y). x - y) (zip (map (\<lambda>(x, y). x + y) (zip b k)) k) = b"
    if "length b \<le> length k" for b k :: bytes
    using that
  proof (induction b arbitrary: k)
    case Nil
    then show ?case by simp
  next
    case (Cons x b)
    then show ?case by (cases k) simp_all
  qed
  then show ?thesis by (simp add: block_cipher_ok_def add_cipher_def)
qed

lemma demo_facts: "crypto_supported demo_env" "length demo_key = 32"
  by (simp_all add: demo_env_def demo_key_def)


section \<open>Lemmas on base64 and UTF-8\<close>

lemma base64_char_value: "n < 64 \<Longrightarrow> base64_value (base64_char n) = Some n"
  by (auto simp: base64_value_def base64_char_def)

lemma base64_char_not_pad: "n < 64 \<Longrightarrow> base64_char n \<noteq> 61"
  by (auto simp: base64_char_def)

lemma base64_char_unit: "n < 64 \<Longrightarrow> base64_char n < 128"
  by (auto simp: base64_char_def)

lemma octets_simps [simp]:
  "octets []" "octets (x # xs) = (x < 256 \<and> octets xs)"
  by (auto simp: octets_def)

lemma digit_bounds:
  assumes "a < 256" and "b < 256" and "c < (256 :: nat)"
  shows "a div 4 < 64" and "a mod 4 * 16 + b div 16 < 64"
    and "b mod 16 * 4 + c div 64 < 64" and "c mod 64 < 64"
    and "a mod 4 * 16 < 64" and "b mod 16 * 4 < 64"
proof -
  have a4: "a mod 4 < 4" and b16: "b mod 16 < 16" by simp_all
  have bd: "b div 16 < 16" and cd: "c div 64 < 4" using assms by simp_all
  show "a div 4 < 64" using assms by simp
  show "a mod 4 * 16 + b div 16 < 64" using a4 bd by linarith
  show "b mod 16 * 4 + c div 64 < 64" using b16 cd by linarith
  show "c mod 64 < 64" by simp
  show "a mod 4 * 16 < 64" using a4 by linarith
  show "b mod 16 * 4 < 64" using b16 by linarith
qed

lemma digits_bound: "octets xs \<Longrightarrow> \<forall>d \<in> set (base64_digits xs). d < 64"
proof (induction xs rule: base64_digits.induct)
  case (1 a b c rest)
  then have "a < 256" "b < 256" "c < 256" by simp_all
  from digit_bounds(1-4) [OF this] 1 show ?case by simp
next
  case (2 a b)
  then have "a < 256" "b < 256" by simp_all
  from digit_bounds(1,2,6) [OF this this(2)] show ?case by simp
next
  case (3 a)
  then have "a < 256" by simp
  from digit_bounds(1,5) [OF this this this] show ?case by simp
next
  case 4
  then show ?case by simp
qed

lemma takeWhile_groups:
  "octets xs \<Longrightarrow>
   takeWhile (\<lambda>c. c \<noteq> 61) (base64_groups xs) = map base64_char (base64_digits xs)"
proof (induction xs rule: base64_groups.induct)
  case (1 a b c rest)
  from digits_bound [OF "1.prems"] have
    "a div 4 < 64" "a mod 4 * 16 + b div 16 < 64" "b mod 16 * 4 + c div 64 < 64" "c mod 64 < 64"
    by simp_all
  with 1 show ?case by (simp add: base64_char_not_pad)
next
  case (2 a b)
  from digits_bound [OF "2.prems"] have
    "a div 4 < 64" "a mod 4 * 16 + b div 16 < 64" "b mod 16 * 4 < 64"
    by simp_all
  then show ?case by (simp add: base64_char_not_pad)
next
  case (3 a)
  from digits_bound [OF "3.prems"] have "a div 4 < 64" "a mod 4 * 16 < 64" by simp_all
  then show ?case by (simp add: base64_char_not_pad)
next
  case 4
  then show ?case by simp
qed

lemma values_of_chars:
  "\<forall>d \<in> set ds. d < 64 \<Longrightarrow>
   concat (map (\<lambda>c. case base64_value c of None \<Rightarrow> [] | Some v \<Rightarrow> [v]) (map base64_char ds)) = ds"
  by (induction ds) (simp_all add: base64_char_value)

lemma digits_back:
  assumes "b < 256" and "c < (256 :: nat)"
  shows "a div 4 * 4 + (a mod 4 * 16 + b div 16) div 16 = a"
    and "(a mod 4 * 16 + b div 16) mod 16 * 16 + (b mod 16 * 4 + c div 64) div 4 = b"
    and "(b mod 16 * 4 + c div 64) mod 4 * 64 + c mod 64 = c"
    and "(a mod 4 * 16 + b div 16) mod 16 * 16 + (b mod 16 * 4) div 4 = b"
    and "a div 4 * 4 + (a mod 4 * 16) div 16 = a"
proof -
  have bd: "b div 16 < 16" and cd: "c div 64 < 4" using assms by simp_all
  have d1: "(a mod 4 * 16 + b div 16) div 16 = a mod 4" using bd by simp
  have m1: "(a mod 4 * 16 + b div 16) mod 16 = b div 16" using bd by simp
  have d2: "(b mod 16 * 4 + c div 64) div 4 = b mod 16" using cd by simp
  have m2: "(b mod 16 * 4 + c div 64) mod 4 = c div 64" using cd by simp
  show "a div 4 * 4 + (a mod 4 * 16 + b div 16) div 16 = a" unfolding d1 by simp
  show "(a mod 4 * 16 + b div 16) mod 16 * 16 + (b mod 16 * 4 + c div 64) div 4 = b"
    unfolding m1 d2 by simp
  show "(b mod 16 * 4 + c div 64) mod 4 * 64 + c mod 64 = c" unfolding m2 by simp
  show "(a mod 4 * 16 + b div 16) mod 16 * 16 + (b mod 16 * 4) div 4 = b"
    unfolding m1 by simp
  show "a div 4 * 4 + (a mod 4 * 16) div 16 = a" by simp
qed

lemma bytes_of_digits: "octets xs \<Longrightarrow> base64_bytes (base64_digits xs) = xs"
proof (induction xs rule: base64_digits.induct)
  case (1 a b c rest)
  then have "b < 256" "c < 256" by simp_all
  from digits_back(1-3) [OF this] 1 show ?case by simp
next
  case (2 a b)
  then have "b < 256" by simp
  from digits_back(1,4) [OF this this] show ?case by simp
next
  case (3 a)
  from digits_back(5) [of 0 0] show ?case by simp
next
  case 4
  then show ?case by simp
qed

lemma groups_units: "octets xs \<Longrightarrow> \<forall>c \<in> set (base64_groups xs). c < 128"
proof (induction xs rule: base64_groups.induct)
  case (1 a b c rest)
  from digits_bound [OF "1.prems"] have
    "a div 4 < 64" "a mod 4 * 16 + b div 16 < 64" "b mod 16 * 4 + c div 64 < 64" "c mod 64 < 64"
    by simp_all
  with 1 show ?case by (simp add: base64_char_unit)
next
  case (2 a b)
  from digits_bound [OF "2.prems"] have
    "a div 4 < 64" "a mod 4 * 16 + b div 16 < 64" "b mod 16 * 4 < 64"
    by simp_all
  then show ?case by (simp add: base64_char_unit)
next
  case (3 a)
  from digits_bound [OF "3.prems"] have "a div 4 < 64" "a mod 4 * 16 < 64" by simp_all
  then show ?case by (simp add: base64_char_unit)
next
  case 4
  then show ?case by simp
qed

lemma octets_unat: "octets (map unat (bs :: bytes))"
proof -
  have "unat b < 256" for b :: byte using unsigned_less [of b] by simp
  then show ?thesis by (simp add: octets_def)
qed

lemma unat_of_nat_byte: "octets xs \<Longrightarrow> map unat (map of_nat xs :: bytes) = xs"
  by (induction xs) (simp_all add: unat_of_nat)

lemma unat_of_nat_unit:
  "\<forall>x \<in> set xs. x < 65536 \<Longrightarrow> map unat (map of_nat xs :: jsstring) = xs"
  by (induction xs) (simp_all add: unat_of_nat)

lemma of_nat_unat_bytes: "map of_nat (map unat bs) = (bs :: bytes)"
  by (induction bs) simp_all

lemma base64_roundtrip: "Buffer_from_base64 (toString_base64 bs) = bs"
proof -
  let ?xs = "map unat bs"
  have o: "octets ?xs" by (rule octets_unat)
  have "\<forall>c \<in> set (base64_groups ?xs). c < 65536"
    using groups_units [OF o] by fastforce
  then have u: "map unat (map of_nat (base64_groups ?xs) :: jsstring) = base64_groups ?xs"
    by (rule unat_of_nat_unit)
  show ?thesis
    unfolding Buffer_from_base64_def toString_base64_def u
    by (simp only: takeWhile_groups [OF o] values_of_chars [OF digits_bound [OF o]]
        bytes_of_digits [OF o] of_nat_unat_bytes)
qed

lemma base64_nonempty: "bs \<noteq> [] \<Longrightarrow> toString_base64 bs \<noteq> []"
proof -
  assume "bs \<noteq> []"
  then have "map unat bs \<noteq> []" by simp
  then have "base64_groups (map unat bs) \<noteq> []"
    by (cases "map unat bs" rule: base64_groups.cases) simp_all
  then show ?thesis by (simp add: toString_base64_def)
qed

lemma split64: "c div 4096 * 64 + c div 64 mod 64 = (c :: nat) div 64"
proof -
  have "c div 4096 = c div 64 div 64" by (simp add: div_mult2_eq)
  then show ?thesis by (simp add: div_mult_mod_eq)
qed

lemma split4096: "c div 262144 * 64 + c div 4096 mod 64 = (c :: nat) div 4096"
proof -
  have "c div 262144 = c div 4096 div 64" by (simp add: div_mult2_eq)
  then show ?thesis by (simp add: div_mult_mod_eq)
qed

lemma utf8_step1: "c < 0x80 \<Longrightarrow> utf8_decode (utf8_encode_cp c @ rest) = c # utf8_decode rest"
  by (simp add: utf8_encode_cp_def)

lemma utf8_step2:
  assumes "0x80 \<le> c" and "c < 0x800"
  shows "utf8_decode (utf8_encode_cp c @ rest) = c # utf8_decode rest"
proof -
  define h where "h = c div 64"
  define l where "l = c mod 64"
  have h: "2 \<le> h" "h < 32" using assms by (simp_all add: h_def)
  have l: "l < 64" by (simp add: l_def)
  have c: "h * 64 + l = c" by (simp add: h_def l_def)
  have enc: "utf8_encode_cp c = [0xC0 + h, 0x80 + l]"
    using assms by (simp add: utf8_encode_cp_def h_def l_def)
  show ?thesis unfolding enc using h l c by simp
qed

lemma utf8_step3:
  assumes "0x800 \<le> c" and "c < 0x10000" and "\<not> is_surrogate c"
  shows "utf8_decode (utf8_encode_cp c @ rest) = c # utf8_decode rest"
proof -
  define h where "h = c div 4096"
  define m where "m = c div 64 mod 64"
  define l where "l = c mod 64"
  have h: "h < 16" using assms by (simp add: h_def)
  have m: "m < 64" and l: "l < 64" by (simp_all add: m_def l_def)
  have c: "(h * 64 + m) * 64 + l = c" by (simp add: h_def l_def m_def split64)
  have lo: "32 \<le> m" if "h = 0"
  proof -
    from that have "c < 4096" using assms by (simp add: h_def)
    then have "c div 64 < 64" by simp
    then have "m = c div 64" by (simp add: m_def)
    with assms(1) show ?thesis by simp
  qed
  have hi: "m < 32" if "h = 13"
  proof -
    from that have "53248 \<le> c" "c < 57344" by (simp_all add: h_def)
    with assms(3) have c2: "c < 55296" by (simp add: is_surrogate_def)
    have "c div 64 = 13 * 64 + m" using split64 [of c] that by (simp add: h_def m_def)
    moreover from c2 have "c div 64 < 864" by simp
    ultimately show ?thesis by simp
  qed
  have enc: "utf8_encode_cp c = [0xE0 + h, 0x80 + m, 0x80 + l]"
    using assms by (simp add: utf8_encode_cp_def h_def l_def m_def)
  show ?thesis unfolding enc using h m l c lo hi by auto
qed

lemma utf8_step4:
  assumes "0x10000 \<le> c" and "c < 0x110000"
  shows "utf8_decode (utf8_encode_cp c @ rest) = c # utf8_decode rest"
proof -
  define h where "h = c div 262144"
  define k where "k = c div 4096 mod 64"
  define m where "m = c div 64 mod 64"
  define l where "l = c mod 64"
  have h: "h < 5" using assms by (simp add: h_def)
  have k: "k < 64" and m: "m < 64" and l: "l < 64" by (simp_all add: k_def m_def l_def)
  have c: "((h * 64 + k) * 64 + m) * 64 + l = c"
    by (simp add: h_def l_def m_def k_def split64 split4096)
  have lo: "16 \<le> k" if "h = 0"
  proof -
    from that have "c < 262144" using assms by (simp add: h_def)
    then have "c div 4096 < 64" by simp
    then have "k = c div 4096" by (simp add: k_def)
    with assms(1) show ?thesis by simp
  qed
  have hi: "k < 16" if "h = 4"
  proof -
    have "c div 4096 = 4 * 64 + k" using split4096 [of c] that by (simp add: h_def k_def)
    moreover from assms(2) have "c div 4096 < 272" by simp
    ultimately show ?thesis by simp
  qed
  have enc: "utf8_encode_cp c = [0xF0 + h, 0x80 + k, 0x80 + m, 0x80 + l]"
    using assms by (simp add: utf8_encode_cp_def h_def l_def m_def k_def)
  show ?thesis unfolding enc using h k m l c lo hi by auto
qed

lemma utf8_step:
  "scalar_value c \<Longrightarrow> utf8_decode (utf8_encode_cp c @ rest) = c # utf8_decode rest"
  using utf8_step1 [of c rest] utf8_step2 [of c rest] utf8_step3 [of c rest] utf8_step4 [of c rest]
  by (cases "c < 0x80"; cases "c < 0x800"; cases "c < 0x10000") (auto simp: scalar_value_def)

lemma utf8_roundtrip:
  "\<forall>c \<in> set cs. scalar_value c \<Longrightarrow> utf8_decode (concat (map utf8_encode_cp cs)) = cs"
  by (induction cs) (simp_all add: utf8_step)

lemma utf8_octets: "scalar_value c \<Longrightarrow> octets (utf8_encode_cp c)"
proof -
  assume s: "scalar_value c"
  then have c: "c < 1114112" by (simp add: scalar_value_def)
  have "c mod 64 < 64" "c div 64 mod 64 < 64" "c div 4096 mod 64 < 64" by simp_all
  moreover have "c div 262144 < 5" using c by simp
  moreover have "c < 65536 \<Longrightarrow> c div 4096 < 16" by simp
  moreover have "c < 2048 \<Longrightarrow> c div 64 < 32" by simp
  ultimately show ?thesis
    by (auto simp: utf8_encode_cp_def)
qed

lemma utf8_octets_all:
  "\<forall>c \<in> set cs. scalar_value c \<Longrightarrow> octets (concat (map utf8_encode_cp cs))"
  using utf8_octets by (induction cs) (auto simp: octets_def)

lemma code_points_scalar:
  "\<forall>u \<in> set us. u < 65536 \<Longrightarrow> \<forall>c \<in> set (code_points us). scalar_value c"
proof (induction us rule: code_points.induct)
  case 1
  then show ?case by simp
next
  case (2 u)
  then show ?case by (simp add: scalar_value_def is_surrogate_def)
next
  case (3 u v us)
  have pair: "scalar_value (0x10000 + (u - 0xD800) * 0x400 + (v - 0xDC00))"
    if "is_high_surrogate u" "is_low_surrogate v"
  proof -
    from that have "u - 0xD800 \<le> 1023" and v: "v \<le> 0xDFFF" "0xDC00 \<le> v"
      by (auto simp: is_high_surrogate_def is_low_surrogate_def)
    then have "(u - 0xD800) * 0x400 \<le> 1023 * 0x400" by (simp only: mult_le_mono1)
    with v show ?thesis by (simp add: scalar_value_def is_surrogate_def)
  qed
  have single: "scalar_value (if is_surrogate u then 0xFFFD else u)"
    using "3.prems" by (simp add: scalar_value_def is_surrogate_def)
  show ?case
  proof (cases "is_high_surrogate u \<and> is_low_surrogate v")
    case True
    then have eq: "code_points (u # v # us) =
        (0x10000 + (u - 0xD800) * 0x400 + (v - 0xDC00)) # code_points us" by simp
    from "3.prems" have "\<forall>u \<in> set us. u < 65536" by simp
    from "3.IH"(1) [OF True this] pair True show ?thesis unfolding eq by simp
  next
    case False
    then have eq: "code_points (u # v # us) =
        (if is_surrogate u then 0xFFFD else u) # code_points (v # us)" by auto
    from "3.prems" have "\<forall>u \<in> set (v # us). u < 65536" by simp
    from "3.IH"(2) [OF False this] single show ?thesis unfolding eq by simp
  qed
qed

lemma utf16_roundtrip:
  "well_formed us \<Longrightarrow> \<forall>u \<in> set us. u < 65536 \<Longrightarrow>
   concat (map utf16_encode_cp (code_points us)) = us"
proof (induction us rule: code_points.induct)
  case 1
  then show ?case by simp
next
  case (2 u)
  then show ?case by (simp add: utf16_encode_cp_def)
next
  case (3 u v us)
  show ?case
  proof (cases "is_high_surrogate u \<and> is_low_surrogate v")
    case True
    then have u: "0xD800 \<le> u" "u \<le> 0xDBFF" and v: "0xDC00 \<le> v" "v \<le> 0xDFFF"
      by (simp_all add: is_high_surrogate_def is_low_surrogate_def)
    define x where "x = u - 0xD800"
    define y where "y = v - 0xDC00"
    have xy: "u = 0xD800 + x" "v = 0xDC00 + y" "y < 1024" using u v by (simp_all add: x_def y_def)
    have "utf16_encode_cp (0x10000 + x * 0x400 + y) = [u, v]"
      using xy by (simp add: utf16_encode_cp_def)
    with True 3 show ?thesis by (simp add: x_def y_def)
  next
    case False
    with "3.prems" have ns: "\<not> is_surrogate u" and wf: "well_formed (v # us)"
      and u: "u < 65536" and rest: "\<forall>u \<in> set (v # us). u < 65536" by simp_all
    from "3.IH"(2) [OF False wf rest] have "concat (map utf16_encode_cp (code_points (v # us))) = v # us" .
    moreover have "code_points (u # v # us) = u # code_points (v # us)"
      using False ns by auto
    moreover have "utf16_encode_cp u = [u]" using u by (simp add: utf16_encode_cp_def)
    ultimately show ?thesis by simp
  qed
qed

lemma units_unat: "\<forall>u \<in> set (map unat (s :: jsstring)). u < 65536"
proof -
  have "unat u < 65536" for u :: "16 word" using unsigned_less [of u] by simp
  then show ?thesis by simp
qed

lemma of_nat_unat_units: "map of_nat (map unat s) = (s :: jsstring)"
  by (induction s) simp_all

lemma decode_encode_bytes:
  "utf8_decode (map unat (Buffer_from_utf8 s)) = code_points (map unat s)"
proof -
  have sc: "\<forall>c \<in> set (code_points (map unat s)). scalar_value c"
    using code_points_scalar [OF units_unat] .
  show ?thesis
    unfolding Buffer_from_utf8_def
    by (simp only: unat_of_nat_byte [OF utf8_octets_all [OF sc]] utf8_roundtrip [OF sc])
qed

lemma string_roundtrip:
  "well_formed (map unat s) \<Longrightarrow> toString_utf8 (Buffer_from_utf8 s) = s"
  unfolding toString_utf8_def decode_encode_bytes
  by (simp only: utf16_roundtrip [OF _ units_unat] of_nat_unat_units)


section \<open>Lemmas on the stored envelope\<close>

lemma truthy_Some: "s \<noteq> [] \<Longrightarrow> truthy (Some s) = Some s"
  by (simp add: truthy_def)

lemma name_given: "name \<noteq> [] \<Longrightarrow> truthy (or_else (Some name) other) = Some name"
  by (simp add: or_else_def truthy_def)

lemma lookup_stored: "accounts cfg name = Some a \<Longrightarrow> lookup_account cfg name = Stored a"
  by (simp add: lookup_account_def)

lemma alice_not_inherited: "\<not> inherited_property (js ''alice'')"
  by (simp add: inherited_property_def inherited_names_def js_def)

text \<open>What \<open>setSeedPhrase\<close> stores for an encoded phrase.\<close>

lemma set_encoded:
  assumes "kdf_ok kdf" and "W \<noteq> []" and "name \<noteq> []" and "\<not> inherited_property name"
    and "length iv = 16"
  shows "\<exists>ct a. cipher_aes_256_cbc bc (kdf W salt) iv (Buffer_from_utf8 S) = Inr ct \<and>
           ct = concat (cbc_encrypt bc (kdf W salt) iv (chunks16 (pkcs7_pad (Buffer_from_utf8 S)))) \<and>
           fst (setSeedPhrase bc kdf cfg S True (Some W) (Some name) salt iv) = Inr True \<and>
           accounts (snd (setSeedPhrase bc kdf cfg S True (Some W) (Some name) salt iv)) name = Some a \<and>
           seed_phrase a = Some (toString_base64 (salt @ iv @ ct)) \<and>
           seed_phrase_encoded a = Some True"
proof -
  from assms(1) have k: "length (kdf W salt) = 32" by (simp add: kdf_ok_def)
  let ?ct = "concat (cbc_encrypt bc (kdf W salt) iv (chunks16 (pkcs7_pad (Buffer_from_utf8 S))))"
  have c: "cipher_aes_256_cbc bc (kdf W salt) iv (Buffer_from_utf8 S) = Inr ?ct"
    using k assms(5) by (simp add: cipher_aes_256_cbc_def)
  have f: "seed_phrase_fields bc kdf S True (Some W) salt iv =
      Inr (toString_base64 (salt @ iv @ ?ct), True)"
    using c assms(2) by (simp add: seed_phrase_fields_def truthy_Some Let_def)
  show ?thesis
  proof (cases "accounts cfg name")
    case None
    with assms(4) have "lookup_account cfg name = Absent" by (simp add: lookup_account_def)
    with c f assms(3) show ?thesis by (simp add: setSeedPhrase_def name_given)
  next
    case (Some a)
    then have "lookup_account cfg name = Stored a" by (rule lookup_stored)
    with c f assms(3) show ?thesis by (simp add: setSeedPhrase_def name_given)
  qed
qed

text \<open>What \<open>getSeedPhrase\<close> does with an encoded record and a password.\<close>

lemma get_encoded:
  assumes "truthy (or_else accountName (active_account cfg)) = Some name"
    and "accounts cfg name = Some a" and "seed_phrase a = Some stored" and "stored \<noteq> []"
    and "seed_phrase_encoded a = Some True" and "W \<noteq> []"
  shows "getSeedPhrase bc kdf cfg accountName (Some W) =
           (case decipher_aes_256_cbc bc (kdf W (take 16 (Buffer_from_base64 stored)))
                   (take 16 (drop 16 (Buffer_from_base64 stored)))
                   (drop 32 (Buffer_from_base64 stored)) of
              Inl e \<Rightarrow> Inl FailedToDecrypt
            | Inr d \<Rightarrow> Inr (toString_utf8 d),
            [(W, take 16 (Buffer_from_base64 stored))])"
  using assms lookup_stored [OF assms(2)]
  by (simp add: getSeedPhrase_def truthy_Some Let_def split: sum.splits)

lemma set_then_get:
  assumes "kdf_ok kdf" and "W1 \<noteq> []" and "W2 \<noteq> []" and "name \<noteq> []"
    and "\<not> inherited_property name" and "length salt = 16" and "length iv = 16"
  shows "getSeedPhrase bc kdf
           (snd (setSeedPhrase bc kdf cfg S True (Some W1) (Some name) salt iv)) (Some name) (Some W2) =
         (case decipher_aes_256_cbc bc (kdf W2 salt) iv
                 (concat (cbc_encrypt bc (kdf W1 salt) iv (chunks16 (pkcs7_pad (Buffer_from_utf8 S))))) of
            Inl e \<Rightarrow> Inl FailedToDecrypt
          | Inr d \<Rightarrow> Inr (toString_utf8 d),
          [(W2, salt)])"
proof -
  let ?cfg = "snd (setSeedPhrase bc kdf cfg S True (Some W1) (Some name) salt iv)"
  let ?ct = "concat (cbc_encrypt bc (kdf W1 salt) iv (chunks16 (pkcs7_pad (Buffer_from_utf8 S))))"
  from set_encoded [OF assms(1,2,4,5,7), of bc salt S cfg]
  obtain a where a: "accounts ?cfg name = Some a"
      "seed_phrase a = Some (toString_base64 (salt @ iv @ ?ct))" "seed_phrase_encoded a = Some True"
    by blast
  have ne: "toString_base64 (salt @ iv @ ?ct) \<noteq> []"
    using assms(6) by (intro base64_nonempty) auto
  have n: "truthy (or_else (Some name) (active_account ?cfg)) = Some name"
    using assms(4) by (rule name_given)
  have parts: "take 16 (salt @ iv @ ?ct) = salt" "take 16 (drop 16 (salt @ iv @ ?ct)) = iv"
      "drop 32 (salt @ iv @ ?ct) = ?ct"
    using assms(6,7) by simp_all
  show ?thesis
    unfolding get_encoded [OF n a(1,2) ne a(3) assms(3)] base64_roundtrip parts ..
qed

lemma seed_roundtrip_general:
  assumes "block_cipher_ok bc" and "kdf_ok kdf" and "W \<noteq> []" and "name \<noteq> []"
    and "\<not> inherited_property name" and "length salt = 16" and "length iv = 16"
  shows "getSeedPhrase bc kdf
           (snd (setSeedPhrase bc kdf cfg S True (Some W) (Some name) salt iv)) (Some name) (Some W) =
         (Inr (toString_utf8 (Buffer_from_utf8 S)), [(W, salt)])"
proof -
  from assms(2) have k: "length (kdf W salt) = 32" by (simp add: kdf_ok_def)
  show ?thesis
    unfolding set_then_get [OF assms(2,3,3,4,5,6,7)] cipher_decipher(2) [OF assms(1) k assms(7)]
    by simp
qed

lemma short_envelope:
  assumes "length d < 32"
  shows "decipher_aes_256_cbc bc key (take 16 (drop 16 d)) (drop 32 d) = Inl InvalidIV"
proof -
  from assms have "length (take 16 (drop 16 d)) \<noteq> 16" by simp
  then show ?thesis unfolding decipher_aes_256_cbc_def by (rule if_P)
qed

lemma demo_kdf_ok: "kdf_ok demo_kdf"
  by (simp add: kdf_ok_def demo_kdf_def min_def)


section \<open>Properties of the content cipher\<close>

text \<open>
  C1. Content cipher round trip: on a client constructed with a 32-byte key \<open>K\<close> where
  crypto support is present (so encryption is available), and for the 16 bytes \<open>iv\<close>
  that \<^verbatim>\<open>randomBytes(16)\<close> returns, \<^verbatim>\<open>encryptData(P)\<close> returns an envelope and
  \<^verbatim>\<open>decryptData\<close> of that envelope returns exactly \<open>P\<close>, for every plaintext \<open>P\<close>. The
  block cipher is any one that deciphers what it enciphers.
\<close>

theorem content_roundtrip:
  assumes "block_cipher_ok bc" and "crypto_supported env"
    and "length K = 32" and "length iv = 16"
  shows "\<exists>E. encryptData bc (new_IPFSClient env ebd (Some K)) iv P = Inr E \<and>
             decryptData bc (new_IPFSClient env ebd (Some K)) E = Inr P"
  using encrypt_then_decrypt [OF assms] by blast

theorem content_roundtrip_witness:
  "block_cipher_ok add_cipher \<and> crypto_supported demo_env \<and> length demo_key = 32 \<and>
   length (replicate 16 (7 :: byte)) = 16 \<and>
   encryptData add_cipher (new_IPFSClient demo_env None (Some demo_key)) (replicate 16 7) [104, 105] =
     Inr [7, 7, 7, 7, 7, 7, 7, 7, 7, 7, 7, 7, 7, 7, 7, 7,
          112, 112, 12, 13, 14, 15, 16, 17, 18, 19, 20, 21, 22, 23, 24, 25] \<and>
   decryptData add_cipher (new_IPFSClient demo_env None (Some demo_key))
     [7, 7, 7, 7, 7, 7, 7, 7, 7, 7, 7, 7, 7, 7, 7, 7,
      112, 112, 12, 13, 14, 15, 16, 17, 18, 19, 20, 21, 22, 23, 24, 25] = Inr [104, 105]"
proof -
  have iv: "length (replicate 16 (7 :: byte)) = 16" by simp
  have enc: "encryptData add_cipher (new_IPFSClient demo_env None (Some demo_key)) (replicate 16 7) [104, 105] =
     Inr [7, 7, 7, 7, 7, 7, 7, 7, 7, 7, 7, 7, 7, 7, 7, 7,
          112, 112, 12, 13, 14, 15, 16, 17, 18, 19, 20, 21, 22, 23, 24, 25]"
    by code_simp
  from content_roundtrip [OF add_cipher_ok demo_facts iv, of None "[104, 105]"]
  show ?thesis using enc add_cipher_ok demo_facts by auto
qed

text \<open>
  C9. Two calls of \<^verbatim>\<open>encryptData(P)\<close> that draw distinct IVs return different envelopes,
  which differ in their first 16 bytes, and both envelopes decrypt back to \<open>P\<close> under the
  same key.
\<close>

theorem iv_uniqueness:
  assumes "block_cipher_ok bc" and "crypto_supported env" and "length K = 32"
    and "length iv1 = 16" and "length iv2 = 16" and "iv1 \<noteq> iv2"
  shows "\<exists>E1 E2. encryptData bc (new_IPFSClient env ebd (Some K)) iv1 P = Inr E1 \<and>
                 encryptData bc (new_IPFSClient env ebd (Some K)) iv2 P = Inr E2 \<and>
                 E1 \<noteq> E2 \<and> take 16 E1 \<noteq> take 16 E2 \<and>
                 decryptData bc (new_IPFSClient env ebd (Some K)) E1 = Inr P \<and>
                 decryptData bc (new_IPFSClient env ebd (Some K)) E2 = Inr P"
proof -
  let ?E1 = "iv1 @ concat (cbc_encrypt bc K iv1 (chunks16 (pkcs7_pad P)))"
  let ?E2 = "iv2 @ concat (cbc_encrypt bc K iv2 (chunks16 (pkcs7_pad P)))"
  have t: "take 16 ?E1 \<noteq> take 16 ?E2" using assms(4-6) by simp
  then have "?E1 \<noteq> ?E2" by metis
  with t encrypt_then_decrypt [OF assms(1-3) assms(4), of ebd P]
    encrypt_then_decrypt [OF assms(1-3) assms(5), of ebd P]
  show ?thesis by blast
qed

theorem iv_uniqueness_witness:
  "block_cipher_ok add_cipher \<and> crypto_supported demo_env \<and> length demo_key = 32 \<and>
   replicate 16 (7 :: byte) \<noteq> replicate 16 8 \<and>
   (\<exists>E1 E2. encryptData add_cipher (new_IPFSClient demo_env None (Some demo_key)) (replicate 16 7) [104, 105] = Inr E1 \<and>
            encryptData add_cipher (new_IPFSClient demo_env None (Some demo_key)) (replicate 16 8) [104, 105] = Inr E2 \<and>
            E1 \<noteq> E2 \<and> take 16 E1 \<noteq> take 16 E2 \<and>
            decryptData add_cipher (new_IPFSClient demo_env None (Some demo_key)) E1 = Inr [104, 105] \<and>
            decryptData add_cipher (new_IPFSClient demo_env None (Some demo_key)) E2 = Inr [104, 105])"
proof -
  have iv1: "length (replicate 16 (7 :: byte)) = 16" and iv2: "length (replicate 16 (8 :: byte)) = 16"
    by simp_all
  have ne: "replicate 16 (7 :: byte) \<noteq> replicate 16 8" by (simp add: replicate_eq_replicate)
  from iv_uniqueness [OF add_cipher_ok demo_facts iv1 iv2 ne, of None "[104, 105]"]
  show ?thesis using add_cipher_ok demo_facts ne by blast
qed

text \<open>
  C5. A client whose key (passed to the constructor, or read from the configuration when
  none is passed) is not exactly 32 bytes long has encryption unavailable, and both
  \<^verbatim>\<open>encryptData\<close> and \<^verbatim>\<open>decryptData\<close> throw the not-available error whatever the data:
  the key is neither truncated nor padded and no cipher is run.
\<close>

theorem key_length_invariant:
  assumes "length K \<noteq> 32"
    and "c = new_IPFSClient env ebd (Some K) \<or>
         (c = new_IPFSClient env ebd None \<and> config_encryption_key env = Some K)"
  shows "\<not> encryptionAvailable c \<and>
         encryptData bc c iv P = Inl EncryptionNotAvailable \<and>
         decryptData bc c E = Inl EncryptionNotAvailable"
proof -
  from assms have "\<not> encryptionAvailable c"
    by (cases "crypto_supported env") (auto simp: new_IPFSClient_def Let_def)
  then show ?thesis by (simp add: encryptData_def decryptData_def)
qed

theorem key_length_invariant_witness:
  "length (replicate 31 (1 :: byte)) \<noteq> 32 \<and>
   \<not> encryptionAvailable (new_IPFSClient demo_env None (Some (replicate 31 1))) \<and>
   encryptData add_cipher (new_IPFSClient demo_env None (Some (replicate 31 1))) (replicate 16 7) [104, 105]
     = Inl EncryptionNotAvailable \<and>
   decryptData add_cipher (new_IPFSClient demo_env None (Some (replicate 31 1))) (replicate 32 0)
     = Inl EncryptionNotAvailable"
proof -
  have l: "length (replicate 31 (1 :: byte)) \<noteq> 32" by simp
  from key_length_invariant [OF l, of "new_IPFSClient demo_env None (Some (replicate 31 1))"
      demo_env None add_cipher "replicate 16 7" "[104, 105]" "replicate 32 0"]
  show ?thesis by simp
qed

text \<open>
  C3, as stated, fails: the error of \<^verbatim>\<open>decryptData\<close> carries the text of the library
  error it caught, and that text is not the same for the three causes. Under one 32-byte
  key, a 5-byte envelope (no whole IV) fails with the invalid-IV error inside, a 24-byte
  envelope (IV and half a block) with the wrong-final-block-length error, and a 32-byte
  envelope whose deciphered block has no valid padding with the bad-decrypt error. The
  first two fail before any block is deciphered, whatever the block cipher.
\<close>

theorem decrypt_failures_differ:
  "decryptData add_cipher (new_IPFSClient demo_env None (Some demo_key)) (replicate 5 0)
     = Inl (DecryptionFailed InvalidIV) \<and>
   decryptData add_cipher (new_IPFSClient demo_env None (Some demo_key)) (replicate 24 0)
     = Inl (DecryptionFailed WrongFinalBlockLength) \<and>
   decryptData add_cipher (new_IPFSClient demo_env None (Some demo_key)) (replicate 32 0)
     = Inl (DecryptionFailed BadDecrypt) \<and>
   DecryptionFailed InvalidIV \<noteq> DecryptionFailed WrongFinalBlockLength \<and>
   DecryptionFailed WrongFinalBlockLength \<noteq> DecryptionFailed BadDecrypt"
  by code_simp

text \<open>
  C3, amended. On a client with a 32-byte key, every failure of \<^verbatim>\<open>decryptData\<close> is an
  error of the one kind \<open>DecryptionFailed\<close> (message \<^verbatim>\<open>Decryption failed: ...\<close>) that
  embeds the library error it caught, and which library error that is depends on the
  length of the envelope alone: invalid IV when the envelope has fewer than 16 bytes,
  wrong final block length when the ciphertext after the IV is empty or not a whole
  number of 16-byte blocks, and bad decrypt in every other case. So the error does not
  tell a wrong key from invalid padding, nor from an envelope cut at a block boundary;
  it does tell an envelope of a wrong length from them.
\<close>

theorem decrypt_failure_causes:
  assumes "crypto_supported env" and "length K = 32"
    and "decryptData bc (new_IPFSClient env ebd (Some K)) E = Inl err"
  shows "err = DecryptionFailed
           (if length E < 16 then InvalidIV
            else if length E = 16 \<or> length E mod 16 \<noteq> 0 then WrongFinalBlockLength
            else BadDecrypt)"
proof -
  have m: "(length E - 16) mod 16 = length E mod 16" if "16 \<le> length E"
    using that by (metis le_mod_geq mod_mod_trivial mod_if le_add_diff_inverse mod_add_self1)
  show ?thesis
  proof (cases "length E < 16")
    case True
    with assms new_client_available [OF assms(1,2), of ebd] show ?thesis
      by (auto simp: decryptData_def decipher_aes_256_cbc_def)
  next
    case False
    then have "16 \<le> length E" by simp
    from m [OF this] False assms new_client_available [OF assms(1,2), of ebd] show ?thesis
      by (auto simp: decryptData_def decipher_aes_256_cbc_def split: option.splits if_splits)
  qed
qed

theorem decrypt_failure_causes_witness:
  "crypto_supported demo_env \<and> length demo_key = 32 \<and>
   decryptData add_cipher (new_IPFSClient demo_env None (Some demo_key)) (replicate 32 0)
     = Inl (DecryptionFailed BadDecrypt) \<and>
   DecryptionFailed BadDecrypt = DecryptionFailed
     (if length (replicate 32 (0 :: byte)) < 16 then InvalidIV
      else if length (replicate 32 (0 :: byte)) = 16 \<or> length (replicate 32 (0 :: byte)) mod 16 \<noteq> 0
      then WrongFinalBlockLength else BadDecrypt)"
proof -
  have d: "decryptData add_cipher (new_IPFSClient demo_env None (Some demo_key)) (replicate 32 0)
     = Inl (DecryptionFailed BadDecrypt)" by code_simp
  from decrypt_failure_causes [OF demo_facts d] show ?thesis using demo_facts d by simp
qed


section \<open>Properties of the credential cipher\<close>

text \<open>
  C2, as stated, fails for a secret that is not well-formed UTF-16. The one-unit string
  \<open>0xD800\<close> (an unpaired surrogate) is stored through
  \<^verbatim>\<open>Buffer.from(seedPhrase, 'utf-8')\<close>, which writes the bytes \<open>EF BF BD\<close> of \<open>U+FFFD\<close> in
  its place; what \<^verbatim>\<open>getSeedPhrase\<close> returns under the same password is the string
  \<open>0xFFFD\<close>, not the secret. By \<open>seed_roundtrip_general\<close> the value returned is
  \<open>toString_utf8 (Buffer_from_utf8 S)\<close> for every block cipher that deciphers what it
  enciphers; the stand-ins only make the input concrete.
\<close>

theorem seed_roundtrip_lone_surrogate:
  "fst (setSeedPhrase add_cipher demo_kdf empty_config [0xD800] True (Some (js ''pw''))
          (Some (js ''alice'')) (replicate 16 1) (replicate 16 2)) = Inr True \<and>
   fst (getSeedPhrase add_cipher demo_kdf
          (snd (setSeedPhrase add_cipher demo_kdf empty_config [0xD800] True (Some (js ''pw''))
                  (Some (js ''alice'')) (replicate 16 1) (replicate 16 2)))
          (Some (js ''alice'')) (Some (js ''pw''))) = Inr [0xFFFD] \<and>
   [0xFFFD] \<noteq> ([0xD800] :: jsstring)"
proof -
  have k: "kdf_ok demo_kdf" by (rule demo_kdf_ok)
  have w: "js ''pw'' \<noteq> []" and n: "js ''alice'' \<noteq> []" by (simp_all add: js_def)
  have s: "length (replicate 16 (1 :: byte)) = 16" and i: "length (replicate 16 (2 :: byte)) = 16"
    by simp_all
  have t1: "Buffer_from_utf8 [0xD800] = [0xEF, 0xBF, 0xBD]"
    by (simp add: Buffer_from_utf8_def utf8_encode_cp_def is_surrogate_def)
  have t2: "toString_utf8 [0xEF, 0xBF, 0xBD] = [0xFFFD]"
    by (simp add: toString_utf8_def utf16_encode_cp_def)
  from set_encoded [OF k w n alice_not_inherited i, of add_cipher "replicate 16 1" "[0xD800]" empty_config]
  have a: "fst (setSeedPhrase add_cipher demo_kdf empty_config [0xD800] True (Some (js ''pw''))
          (Some (js ''alice'')) (replicate 16 1) (replicate 16 2)) = Inr True" by blast
  from seed_roundtrip_general [OF add_cipher_ok k w n alice_not_inherited s i, of empty_config "[0xD800]"]
  show ?thesis using a by (simp add: t1 t2)
qed

text \<open>
  C2, amended. Credential cipher round trip: for every secret \<open>S\<close> in which every
  surrogate code unit is part of a pair, every non-empty password \<open>W\<close>, every account
  name that is not empty and not the name of a property inherited from
  \<^verbatim>\<open>Object.prototype\<close>, and the two draws of 16 random bytes,
  \<^verbatim>\<open>setSeedPhrase(S, true, W, name)\<close> succeeds and \<^verbatim>\<open>getSeedPhrase(name, W)\<close> on the
  configuration it wrote returns exactly \<open>S\<close>. Nothing is said here of the inherited
  names, for which the phrase does not reach the file.
\<close>

theorem seed_roundtrip:
  assumes "block_cipher_ok bc" and "kdf_ok kdf" and "W \<noteq> []" and "name \<noteq> []"
    and "\<not> inherited_property name"
    and "length salt = 16" and "length iv = 16" and "well_formed (map unat S)"
  shows "fst (setSeedPhrase bc kdf cfg S True (Some W) (Some name) salt iv) = Inr True \<and>
         fst (getSeedPhrase bc kdf
                (snd (setSeedPhrase bc kdf cfg S True (Some W) (Some name) salt iv))
                (Some name) (Some W)) = Inr S"
proof -
  from set_encoded [OF assms(2,3,4,5,7), of bc salt S cfg]
  have "fst (setSeedPhrase bc kdf cfg S True (Some W) (Some name) salt iv) = Inr True" by blast
  then show ?thesis
    by (simp add: seed_roundtrip_general [OF assms(1-7)] string_roundtrip [OF assms(8)])
qed

theorem seed_roundtrip_witness:
  "block_cipher_ok add_cipher \<and> kdf_ok demo_kdf \<and> js ''pw'' \<noteq> [] \<and> js ''alice'' \<noteq> [] \<and>
   \<not> inherited_property (js ''alice'') \<and> well_formed (map unat (js ''seed'')) \<and>
   fst (setSeedPhrase add_cipher demo_kdf empty_config (js ''seed'') True (Some (js ''pw''))
          (Some (js ''alice'')) (replicate 16 1) (replicate 16 2)) = Inr True \<and>
   fst (getSeedPhrase add_cipher demo_kdf
          (snd (setSeedPhrase add_cipher demo_kdf empty_config (js ''seed'') True (Some (js ''pw''))
                  (Some (js ''alice'')) (replicate 16 1) (replicate 16 2)))
          (Some (js ''alice'')) (Some (js ''pw''))) = Inr (js ''seed'')"
proof -
  have k: "kdf_ok demo_kdf" by (rule demo_kdf_ok)
  have w: "js ''pw'' \<noteq> []" and n: "js ''alice'' \<noteq> []" by (simp_all add: js_def)
  have s: "length (replicate 16 (1 :: byte)) = 16" and i: "length (replicate 16 (2 :: byte)) = 16"
    by simp_all
  have wf: "well_formed (map unat (js ''seed''))"
    by (simp add: js_def unat_of_nat is_surrogate_def is_high_surrogate_def)
  from seed_roundtrip [OF add_cipher_ok k w n alice_not_inherited s i wf, of empty_config]
  show ?thesis using add_cipher_ok k w n alice_not_inherited wf by blast
qed

text \<open>
  C4, as stated, fails: the source has no length check on the decoded envelope. The
  stored value \<^verbatim>\<open>QUJD\<close> decodes to the three bytes \<open>41 42 43\<close>; \<^verbatim>\<open>getSeedPhrase\<close> takes
  them as the salt, runs the key derivation on the password and that salt, and only then
  fails, when the decipher is created with an empty IV, with the same error as every
  other decryption failure. Neither the block cipher nor the result of the key
  derivation has a part in this outcome.
\<close>

theorem short_envelope_derives_key:
  "Buffer_from_base64 (js ''QUJD'') = [65, 66, 67] \<and>
   getSeedPhrase add_cipher demo_kdf
     (empty_config\<lparr> accounts := [js ''alice'' \<mapsto>
        \<lparr> seed_phrase = Some (js ''QUJD''), seed_phrase_encoded = Some True \<rparr>] \<rparr>)
     (Some (js ''alice'')) (Some (js ''pw''))
   = (Inl FailedToDecrypt, [(js ''pw'', [65, 66, 67])])"
proof -
  have d: "Buffer_from_base64 (js ''QUJD'') = [65, 66, 67]"
    by (simp add: Buffer_from_base64_def js_def base64_value_def unat_of_nat)
  have w: "js ''pw'' \<noteq> []" and n: "js ''alice'' \<noteq> []" and st: "js ''QUJD'' \<noteq> []"
    by (simp_all add: js_def)
  let ?cfg = "empty_config\<lparr> accounts := [js ''alice'' \<mapsto>
        \<lparr> seed_phrase = Some (js ''QUJD''), seed_phrase_encoded = Some True \<rparr>] \<rparr>"
  have a: "accounts ?cfg (js ''alice'') =
      Some \<lparr> seed_phrase = Some (js ''QUJD''), seed_phrase_encoded = Some True \<rparr>" by simp
  have "getSeedPhrase add_cipher demo_kdf ?cfg (Some (js ''alice'')) (Some (js ''pw'')) =
      (case decipher_aes_256_cbc add_cipher (demo_kdf (js ''pw'') (take 16 [65, 66, 67]))
             (take 16 (drop 16 [65, 66, 67])) (drop 32 [65, 66, 67]) of
         Inl e \<Rightarrow> Inl FailedToDecrypt | Inr d \<Rightarrow> Inr (toString_utf8 d),
       [(js ''pw'', take 16 [65, 66, 67])])"
    using get_encoded [OF name_given [OF n] a _ st _ w, of add_cipher demo_kdf] by (simp add: d)
  then show ?thesis by (simp add: d decipher_aes_256_cbc_def)
qed

text \<open>
  C4, amended. For every account marked encoded whose stored value is not empty and
  decodes from base64 to fewer than 32 bytes, and every non-empty password,
  \<^verbatim>\<open>getSeedPhrase\<close> fails with the generic decryption failure
  (\<^verbatim>\<open>'Failed to decrypt seed phrase: Invalid password or corrupted data'\<close>), after one key
  derivation with the password and the first bytes (at most 16) of the decoded value as
  salt.
\<close>

theorem short_envelope_rejected:
  assumes "truthy (or_else accountName (active_account cfg)) = Some name"
    and "accounts cfg name = Some a" and "seed_phrase a = Some stored" and "stored \<noteq> []"
    and "seed_phrase_encoded a = Some True" and "W \<noteq> []"
    and "length (Buffer_from_base64 stored) < 32"
  shows "getSeedPhrase bc kdf cfg accountName (Some W) =
           (Inl FailedToDecrypt, [(W, take 16 (Buffer_from_base64 stored))])"
  unfolding get_encoded [OF assms(1-6)] short_envelope [OF assms(7)] by simp

theorem short_envelope_rejected_witness:
  "js ''QUJD'' \<noteq> [] \<and> js ''pw'' \<noteq> [] \<and> length (Buffer_from_base64 (js ''QUJD'')) < 32 \<and>
   getSeedPhrase add_cipher demo_kdf
     (empty_config\<lparr> active_account := Some (js ''alice''), accounts := [js ''alice'' \<mapsto>
        \<lparr> seed_phrase = Some (js ''QUJD''), seed_phrase_encoded = Some True \<rparr>] \<rparr>)
     None (Some (js ''pw''))
   = (Inl FailedToDecrypt, [(js ''pw'', take 16 (Buffer_from_base64 (js ''QUJD'')))])"
proof -
  have d: "Buffer_from_base64 (js ''QUJD'') = [65, 66, 67]"
    by (simp add: Buffer_from_base64_def js_def base64_value_def unat_of_nat)
  then have l: "length (Buffer_from_base64 (js ''QUJD'')) < 32" by simp
  have w: "js ''pw'' \<noteq> []" and n: "js ''alice'' \<noteq> []" and st: "js ''QUJD'' \<noteq> []"
    by (simp_all add: js_def)
  let ?cfg = "empty_config\<lparr> active_account := Some (js ''alice''), accounts := [js ''alice'' \<mapsto>
        \<lparr> seed_phrase = Some (js ''QUJD''), seed_phrase_encoded = Some True \<rparr>] \<rparr>"
  have a: "accounts ?cfg (js ''alice'') =
      Some \<lparr> seed_phrase = Some (js ''QUJD''), seed_phrase_encoded = Some True \<rparr>" by simp
  have nm: "truthy (or_else None (active_account ?cfg)) = Some (js ''alice'')"
    using n by (simp add: or_else_def truthy_def)
  have sp: "seed_phrase \<lparr> seed_phrase = Some (js ''QUJD''), seed_phrase_encoded = Some True \<rparr>
      = Some (js ''QUJD'')" by simp
  have se: "seed_phrase_encoded \<lparr> seed_phrase = Some (js ''QUJD''), seed_phrase_encoded = Some True \<rparr>
      = Some True" by simp
  from short_envelope_rejected [OF nm a sp st se w l, of add_cipher demo_kdf]
  show ?thesis using st w l by blast
qed

text \<open>
  C6. The claim is what the repository's own test \<^verbatim>\<open>throws error when trying to decrypt with
  wrong password\<close> states, and the code does not keep it: \<^verbatim>\<open>getSeedPhrase\<close> has no check
  of the password or of the integrity of the envelope other than the padding check of
  the decipher, so a wrong password whose key deciphers the last block to valid padding
  is not refused, and the deciphered bytes are returned as the seed phrase. Here the
  phrase \<^verbatim>\<open>seed\<close> is stored under the password \<^verbatim>\<open>pw\<close>; the password \<^verbatim>\<open>px\<close> derives a
  different key, the call does not fail, and it returns \<^verbatim>\<open>sded\<close>. The block cipher and
  the key derivation are the stand-ins; the path through the code is the same with AES
  and PBKDF2 whenever the deciphered last block ends in valid padding.
\<close>

theorem wrong_password_returns_other_text:
  "js ''px'' \<noteq> js ''pw'' \<and>
   demo_kdf (js ''px'') (replicate 16 1) \<noteq> demo_kdf (js ''pw'') (replicate 16 1) \<and>
   fst (setSeedPhrase add_cipher demo_kdf empty_config (js ''seed'') True (Some (js ''pw''))
          (Some (js ''alice'')) (replicate 16 1) (replicate 16 2)) = Inr True \<and>
   fst (getSeedPhrase add_cipher demo_kdf
          (snd (setSeedPhrase add_cipher demo_kdf empty_config (js ''seed'') True
                  (Some (js ''pw'')) (Some (js ''alice'')) (replicate 16 1) (replicate 16 2)))
          (Some (js ''alice'')) (Some (js ''px''))) = Inr (js ''sded'') \<and>
   js ''sded'' \<noteq> js ''seed''"
proof -
  have w: "js ''pw'' \<noteq> []" and w2: "js ''px'' \<noteq> []" and n: "js ''alice'' \<noteq> []"
    by (simp_all add: js_def)
  have s: "length (replicate 16 (1 :: byte)) = 16" and i: "length (replicate 16 (2 :: byte)) = 16"
    by simp_all
  have r: "replicate 16 (1 :: byte) = 1 # replicate 15 1" using replicate_Suc [of 15 "1 :: byte"] by simp
  have k1: "demo_kdf (js ''pw'') (replicate 16 1) = [113, 120] @ replicate 30 1"
    unfolding r by (simp add: demo_kdf_def js_def unat_of_nat)
  have k2: "demo_kdf (js ''px'') (replicate 16 1) = [113, 121] @ replicate 30 1"
    unfolding r by (simp add: demo_kdf_def js_def unat_of_nat)
  have u: "Buffer_from_utf8 (js ''seed'') = [115, 101, 101, 100]"
    by (simp add: Buffer_from_utf8_def js_def unat_of_nat utf8_encode_cp_def is_surrogate_def
        is_high_surrogate_def)
  have d: "decipher_aes_256_cbc add_cipher ([113, 121] @ replicate 30 1) (replicate 16 2)
      (concat (cbc_encrypt add_cipher ([113, 120] @ replicate 30 1) (replicate 16 2)
         (chunks16 (pkcs7_pad [115, 101, 101, 100])))) = Inr [115, 100, 101, 100]"
    by code_simp
  have t: "toString_utf8 [115, 100, 101, 100] = js ''sded''"
    by (simp add: toString_utf8_def utf16_encode_cp_def js_def)
  from set_encoded [OF demo_kdf_ok w n alice_not_inherited i,
      of add_cipher "replicate 16 1" "js ''seed''" empty_config]
  have a: "fst (setSeedPhrase add_cipher demo_kdf empty_config (js ''seed'') True (Some (js ''pw''))
          (Some (js ''alice'')) (replicate 16 1) (replicate 16 2)) = Inr True" by blast
  have g: "fst (getSeedPhrase add_cipher demo_kdf
          (snd (setSeedPhrase add_cipher demo_kdf empty_config (js ''seed'') True
                  (Some (js ''pw'')) (Some (js ''alice'')) (replicate 16 1) (replicate 16 2)))
          (Some (js ''alice'')) (Some (js ''px''))) = Inr (js ''sded'')"
    unfolding set_then_get [OF demo_kdf_ok w w2 n alice_not_inherited s i]
    by (simp add: k1 k2 u d t del: append.simps replicate.simps)
  have ne: "js ''px'' \<noteq> js ''pw''" "js ''sded'' \<noteq> js ''seed''" by (simp_all add: js_def)
  have kne: "demo_kdf (js ''px'') (replicate 16 1) \<noteq> demo_kdf (js ''pw'') (replicate 16 1)"
    unfolding k1 k2 by simp
  from ne kne a g show ?thesis by blast
qed


end
